theory Spec2Isabelle
  imports Main "HOL-Library.Word"
begin

unbundle bit_operations_syntax

section \<open>Go values\<close>

text \<open>
  A Go \<^verbatim>\<open>[]byte\<close> is modelled by its contents: the nil slice and the empty slice are
  both \<open>[]\<close>. A Go \<^verbatim>\<open>string\<close> used as a map key is the same byte sequence
  (\<^verbatim>\<open>string(key)\<close> copies the bytes unchanged). Slices are values here: a caller
  that overwrites the bytes of a slice it has passed to \<^verbatim>\<open>Put\<close>, or received from
  \<^verbatim>\<open>Get\<close>, is outside the model.
\<close>

type_synonym byte = "8 word"

type_synonym bytes = "byte list"

type_synonym uint32 = "32 word"

type_synonym uint64 = "64 word"

text \<open>
  The error values the two files can return. \<open>ErrCorruption\<close> is the value built by
  \<^verbatim>\<open>errors.New("data corruption detected")\<close> in \<^verbatim>\<open>Read\<close>; the others come from the Go
  standard library: \<open>EOF\<close> and \<open>ErrUnexpectedEOF\<close> from package io, \<open>ErrInvalid\<close> from a
  method call on a nil \<^verbatim>\<open>*os.File\<close>, the three \<open>PathError\<close>s from the system calls
  (seek to a negative offset, open of the empty path, write past the largest file
  offset), \<open>GobError\<close> from the gob encoder or decoder. The two \<open>Panic\<close> values are not
  error values of Go but run-time panics that unwind the caller
  (\<^verbatim>\<open>makeslice: len out of range\<close> and \<^verbatim>\<open>bytes.Buffer: too large\<close>).
\<close>

datatype error =
    EOF
  | ErrUnexpectedEOF
  | ErrInvalid
  | PathError_EINVAL
  | PathError_ENOENT
  | PathError_EFBIG
  | ErrCorruption
  | GobError string
  | Panic_makeslice
  | Panic_ErrTooLarge

section \<open>Package encoding/binary: big-endian integers\<close>

text \<open>\<^verbatim>\<open>binary.BigEndian.PutUint64\<close>: \<^verbatim>\<open>b[0] = byte(v >> 56)\<close>, ..., \<^verbatim>\<open>b[7] = byte(v)\<close>.\<close>

definition PutUint64 :: "uint64 \<Rightarrow> bytes" where
  "PutUint64 v = [ucast (drop_bit 56 v), ucast (drop_bit 48 v), ucast (drop_bit 40 v),
     ucast (drop_bit 32 v), ucast (drop_bit 24 v), ucast (drop_bit 16 v),
     ucast (drop_bit 8 v), ucast v]"

text \<open>\<^verbatim>\<open>binary.BigEndian.Uint64\<close>, on a slice of 8 bytes:
  \<^verbatim>\<open>uint64(b[7]) | uint64(b[6])<<8 | ... | uint64(b[0])<<56\<close>.\<close>

definition Uint64 :: "bytes \<Rightarrow> uint64" where
  "Uint64 b = ucast (b ! 7) OR push_bit 8 (ucast (b ! 6)) OR push_bit 16 (ucast (b ! 5)) OR
     push_bit 24 (ucast (b ! 4)) OR push_bit 32 (ucast (b ! 3)) OR push_bit 40 (ucast (b ! 2)) OR
     push_bit 48 (ucast (b ! 1)) OR push_bit 56 (ucast (b ! 0))"

definition PutUint32 :: "uint32 \<Rightarrow> bytes" where
  "PutUint32 v = [ucast (drop_bit 24 v), ucast (drop_bit 16 v), ucast (drop_bit 8 v), ucast v]"

definition Uint32 :: "bytes \<Rightarrow> uint32" where
  "Uint32 b = ucast (b ! 3) OR push_bit 8 (ucast (b ! 2)) OR push_bit 16 (ucast (b ! 1)) OR
     push_bit 24 (ucast (b ! 0))"

section \<open>Package hash/crc32: the IEEE checksum\<close>

text \<open>
  \<^verbatim>\<open>crc32.ChecksumIEEE\<close> in its bit-by-bit form: the reflected IEEE polynomial
  \<^verbatim>\<open>0xedb88320\<close>, the register started at all ones and inverted at the end. \<open>crc_bit\<close> is
  the body of the inner loop of \<^verbatim>\<open>simplePopulateTable\<close>
  (\<^verbatim>\<open>if crc&1 == 1 { crc = (crc >> 1) ^ poly } else { crc >>= 1 }\<close>); one byte is eight
  such steps on the register xor-ed with the byte.
\<close>

definition IEEE :: uint32 where
  "IEEE = 0xedb88320"

definition crc_bit :: "uint32 \<Rightarrow> uint32" where
  "crc_bit crc = (if crc AND 1 = 1 then drop_bit 1 crc XOR IEEE else drop_bit 1 crc)"

definition crc_update :: "uint32 \<Rightarrow> byte \<Rightarrow> uint32" where
  "crc_update crc v = (crc_bit ^^ 8) (crc XOR ucast v)"

definition ChecksumIEEE :: "bytes \<Rightarrow> uint32" where
  "ChecksumIEEE p = NOT (foldl crc_update (NOT 0) p)"

section \<open>Package os: a file on disk and an open file\<close>

text \<open>
  The disk maps a path to the bytes of the regular file stored there. An open file
  (\<^verbatim>\<open>os.File\<close>) is the path it was opened on and its read/write position; a
  \<^verbatim>\<open>*os.File\<close> is an \<open>os_file option\<close>, \<open>None\<close> being the nil pointer. Storage faults
  (a failing device) are outside the model: a system call fails only for the reasons
  written out below.
\<close>

record os_file =
  path :: string
  pos :: nat

type_synonym disk = "string \<Rightarrow> bytes option"

definition contents :: "disk \<Rightarrow> os_file \<Rightarrow> bytes" where
  "contents d f = (case d (path f) of None \<Rightarrow> [] | Some bs \<Rightarrow> bs)"

text \<open>The largest file offset (\<^verbatim>\<open>off_t\<close> is a signed 64-bit integer).\<close>

definition max_file_size :: nat where
  "max_file_size = 2 ^ 63 - 1"

text \<open>The runtime's \<^verbatim>\<open>maxAlloc\<close> on a 64-bit platform with 48 address bits:
  \<^verbatim>\<open>make([]byte, n)\<close> panics when \<open>n\<close> is larger, and every byte slice is at most this
  long.\<close>

definition maxAlloc :: nat where
  "maxAlloc = 2 ^ 48"

text \<open>\<^verbatim>\<open>os.OpenFile(path, os.O_CREATE|os.O_RDWR, 0666)\<close>: the file is created empty when it
  does not exist; the empty path does not name a file.\<close>

definition OpenFile :: "string \<Rightarrow> disk \<Rightarrow> (error + os_file) \<times> disk" where
  "OpenFile p d =
     (if p = [] then (Inl PathError_ENOENT, d)
      else (Inr \<lparr>path = p, pos = 0\<rparr>, (case d p of None \<Rightarrow> d(p \<mapsto> []) | Some bs \<Rightarrow> d)))"

datatype whence = SeekStart | SeekEnd

text \<open>\<^verbatim>\<open>(*os.File).Seek\<close>: \<^verbatim>\<open>ErrInvalid\<close> on the nil file, \<^verbatim>\<open>EINVAL\<close> when the new position
  would be negative; a position past the end of the file is allowed. A file system
  also refuses, with \<^verbatim>\<open>EINVAL\<close>, a position above its own largest offset, which differs
  from one file system to the next and can be far below \<open>2 ^ 63 - 1\<close>; that limit is not
  modelled, so a statement about a position past the end of the file names no
  particular error.\<close>

definition Seek :: "os_file option \<Rightarrow> int \<Rightarrow> whence \<Rightarrow> disk \<Rightarrow> (error + int) \<times> os_file option" where
  "Seek fp offset wh d =
     (case fp of
        None \<Rightarrow> (Inl ErrInvalid, None)
      | Some f \<Rightarrow>
          (let target = (case wh of SeekStart \<Rightarrow> offset
                                  | SeekEnd \<Rightarrow> int (length (contents d f)) + offset)
           in if target < 0 then (Inl PathError_EINVAL, Some f)
              else (Inr target, Some (f\<lparr>pos := nat target\<rparr>))))"

text \<open>\<^verbatim>\<open>io.ReadFull(file, buf)\<close> with \<open>n = len(buf)\<close>: no read at all for \<open>n = 0\<close>; \<open>EOF\<close>
  when no byte is left at the position, \<open>ErrUnexpectedEOF\<close> when some but fewer than
  \<open>n\<close> are left; otherwise the next \<open>n\<close> bytes. The kernel refuses, with \<^verbatim>\<open>EINVAL\<close>, a
  read whose position plus count passes \<open>2 ^ 63 - 1\<close>; that refusal is not modelled, so
  a statement that names the \<open>EOF\<close> of a read keeps the position at least 8 bytes below
  that bound.\<close>

definition ReadFull :: "os_file option \<Rightarrow> nat \<Rightarrow> disk \<Rightarrow> (error + bytes) \<times> os_file option" where
  "ReadFull fp n d =
     (if n = 0 then (Inr [], fp)
      else (case fp of
        None \<Rightarrow> (Inl ErrInvalid, None)
      | Some f \<Rightarrow>
          (let avail = drop (pos f) (contents d f)
           in if avail = [] then (Inl EOF, Some f)
              else if length avail < n
                then (Inl ErrUnexpectedEOF, Some (f\<lparr>pos := pos f + length avail\<rparr>))
                else (Inr (take n avail), Some (f\<lparr>pos := pos f + n\<rparr>)))))"

text \<open>\<^verbatim>\<open>binary.Read(file, binary.BigEndian, &x)\<close> for a \<^verbatim>\<open>uint64\<close> and a \<^verbatim>\<open>uint32\<close>: the
  bytes are read with \<^verbatim>\<open>io.ReadFull\<close> and decoded.\<close>

definition binary_Read_uint64 :: "os_file option \<Rightarrow> disk \<Rightarrow> (error + uint64) \<times> os_file option" where
  "binary_Read_uint64 fp d =
     (case ReadFull fp 8 d of
        (Inl err, fp') \<Rightarrow> (Inl err, fp')
      | (Inr bs, fp') \<Rightarrow> (Inr (Uint64 bs), fp'))"

definition binary_Read_uint32 :: "os_file option \<Rightarrow> disk \<Rightarrow> (error + uint32) \<times> os_file option" where
  "binary_Read_uint32 fp d =
     (case ReadFull fp 4 d of
        (Inl err, fp') \<Rightarrow> (Inl err, fp')
      | (Inr bs, fp') \<Rightarrow> (Inr (Uint32 bs), fp'))"

text \<open>\<^verbatim>\<open>make([]byte, n)\<close> for a \<^verbatim>\<open>uint64\<close> length: the length of the new slice, or the
  panic of \<^verbatim>\<open>makeslice\<close>. Memory for a slice the runtime accepts is taken to be there:
  a length of at most \<open>maxAlloc\<close> that the machine cannot hold ends the real process
  (out of memory) and has no counterpart here.\<close>

definition make_bytes :: "uint64 \<Rightarrow> error + nat" where
  "make_bytes n = (if unat n > maxAlloc then Inl Panic_makeslice else Inr (unat n))"

text \<open>\<^verbatim>\<open>(*os.File).Write\<close>: the bytes go to the file at the position (a gap before the
  position is filled with zeros) and the position moves behind them. Only the bytes
  that end at or before the largest file offset are written; when some are left over
  the call fails with \<^verbatim>\<open>EFBIG\<close>.\<close>

definition Write :: "os_file option \<Rightarrow> bytes \<Rightarrow> disk \<Rightarrow> (error + nat) \<times> os_file option \<times> disk" where
  "Write fp b d =
     (case fp of
        None \<Rightarrow> (Inl ErrInvalid, None, d)
      | Some f \<Rightarrow>
          (let old = contents d f;
               p = pos f;
               b' = take (max_file_size - p) b;
               new = take p (old @ replicate (p - length old) 0) @ b' @ drop (p + length b') old;
               d' = (if b' = [] then d else d(path f \<mapsto> new));
               f' = f\<lparr>pos := p + length b'\<rparr>
           in if length b' < length b then (Inl PathError_EFBIG, Some f', d')
              else (Inr (length b), Some f', d')))"

text \<open>\<^verbatim>\<open>(*os.File).Close\<close> on an open file.\<close>

definition file_Close :: "os_file \<Rightarrow> error option" where
  "file_Close f = None"

text \<open>\<^verbatim>\<open>(*bytes.Buffer).Write\<close>: appends, and panics with \<^verbatim>\<open>ErrTooLarge\<close> when the
  buffer cannot be a byte slice any more.\<close>

definition Buffer_Write :: "bytes \<Rightarrow> bytes \<Rightarrow> error + bytes" where
  "Buffer_Write buf p = (if length buf + length p > maxAlloc then Inl Panic_ErrTooLarge else Inr (buf @ p))"

section \<open>log.go: the record log\<close>

text \<open>\<^verbatim>\<open>type FileLog struct { file *os.File; buffer []byte }\<close>\<close>

record FileLog =
  "file" :: "os_file option"
  buffer :: bytes

text \<open>\<^verbatim>\<open>NewFileLog\<close> (log.go, lines 28-35).\<close>

definition NewFileLog :: "string \<Rightarrow> disk \<Rightarrow> (error + FileLog) \<times> disk" where
  "NewFileLog p d =
     (case OpenFile p d of
        (Inl err, d') \<Rightarrow> (Inl err, d')
      | (Inr f, d') \<Rightarrow> (Inr \<lparr>file = Some f, buffer = []\<rparr>, d'))"

text \<open>
  \<^verbatim>\<open>Append\<close> (log.go, lines 37-82): seek to the end, build the frame in a buffer (the
  length as 8 big-endian bytes, the record, the checksum as 4 big-endian bytes) and
  write the buffer. The result is the error or the offset, the log (its file has
  moved) and the disk.
\<close>

definition Append :: "FileLog \<Rightarrow> bytes \<Rightarrow> disk \<Rightarrow> (error + uint64) \<times> FileLog \<times> disk" where
  "Append fl record d =
     (case Seek (file fl) 0 SeekEnd d of
        (Inl err, f1) \<Rightarrow> (Inl err, fl\<lparr>file := f1\<rparr>, d)
      | (Inr signedOffset, f1) \<Rightarrow>
          (let offset = (word_of_int signedOffset :: uint64);
               lenRecord = (of_nat (length record) :: uint64)
           in case Buffer_Write [] (PutUint64 lenRecord) of
                Inl err \<Rightarrow> (Inl err, fl\<lparr>file := f1\<rparr>, d)
              | Inr buf1 \<Rightarrow>
             (case Buffer_Write buf1 record of
                Inl err \<Rightarrow> (Inl err, fl\<lparr>file := f1\<rparr>, d)
              | Inr buf2 \<Rightarrow>
             (let checksum = ChecksumIEEE record
              in case Buffer_Write buf2 (PutUint32 checksum) of
                Inl err \<Rightarrow> (Inl err, fl\<lparr>file := f1\<rparr>, d)
              | Inr buf3 \<Rightarrow>
             (case Write f1 buf3 d of
                (Inl err, f2, d') \<Rightarrow> (Inl err, fl\<lparr>file := f2\<rparr>, d')
              | (Inr n, f2, d') \<Rightarrow> (Inr offset, fl\<lparr>file := f2\<rparr>, d'))))))"

text \<open>
  \<^verbatim>\<open>Read\<close> (log.go, lines 84-120): seek to the offset (converted to \<^verbatim>\<open>int64\<close>), read
  the length, allocate and read the record, read the checksum, compare, and return
  the record with \<^verbatim>\<open>offset + 8 + lenRecord + 4\<close> (64-bit arithmetic).
\<close>

definition Read :: "FileLog \<Rightarrow> uint64 \<Rightarrow> disk \<Rightarrow> (error + bytes \<times> uint64) \<times> FileLog" where
  "Read fl offset d =
     (case Seek (file fl) (sint offset) SeekStart d of
        (Inl err, f1) \<Rightarrow> (Inl err, fl\<lparr>file := f1\<rparr>)
      | (Inr _, f1) \<Rightarrow>
     (case binary_Read_uint64 f1 d of
        (Inl err, f2) \<Rightarrow> (Inl err, fl\<lparr>file := f2\<rparr>)
      | (Inr lenRecord, f2) \<Rightarrow>
     (case make_bytes lenRecord of
        Inl err \<Rightarrow> (Inl err, fl\<lparr>file := f2\<rparr>)
      | Inr n \<Rightarrow>
     (case ReadFull f2 n d of
        (Inl err, f3) \<Rightarrow> (Inl err, fl\<lparr>file := f3\<rparr>)
      | (Inr record, f3) \<Rightarrow>
     (case binary_Read_uint32 f3 d of
        (Inl err, f4) \<Rightarrow> (Inl err, fl\<lparr>file := f4\<rparr>)
      | (Inr checksum, f4) \<Rightarrow>
          if ChecksumIEEE record \<noteq> checksum then (Inl ErrCorruption, fl\<lparr>file := f4\<rparr>)
          else (Inr (record, offset + 8 + lenRecord + 4), fl\<lparr>file := f4\<rparr>))))))"

text \<open>\<^verbatim>\<open>Close\<close> (log.go, lines 122-131).\<close>

definition Close :: "FileLog \<Rightarrow> error option \<times> FileLog" where
  "Close fl =
     (case file fl of
        Some f \<Rightarrow>
          (case file_Close f of
             Some err \<Rightarrow> (Some err, fl)
           | None \<Rightarrow> (None, fl\<lparr>file := None\<rparr>))
      | None \<Rightarrow> (None, fl))"

text \<open>The on-disk frame of one record, as section 6 of the specification words it:
  the length, the payload, the checksum of the payload.\<close>

definition frame :: "bytes \<Rightarrow> bytes" where
  "frame r = PutUint64 (of_nat (length r)) @ r @ PutUint32 (ChecksumIEEE r)"

section \<open>wal.go: operations, the store, Get, Put and Delete\<close>

text \<open>\<^verbatim>\<open>type WriteOperation struct\<close> (wal.go, lines 22-26), its type field a Go \<^verbatim>\<open>int\<close>
  (no arithmetic is done on it), and the two constants (lines 31-34).\<close>

record WriteOperation =
  WriteOperationType :: int
  Key :: bytes
  Value :: bytes

definition PUT :: int where
  "PUT = 0"

definition DELETE :: int where
  "DELETE = 1"

text \<open>
  Package encoding/gob is not modelled: \<^verbatim>\<open>gob.NewEncoder(buf).Encode(op)\<close> followed by
  \<^verbatim>\<open>buf.Bytes()\<close>, and \<^verbatim>\<open>gob.NewDecoder(bytes.NewBuffer(record)).Decode(&op)\<close> into a
  fresh \<^verbatim>\<open>op\<close>, are two functions that \<^verbatim>\<open>Put\<close>, \<^verbatim>\<open>Delete\<close> and replay take as
  parameters. Both start from a new encoder or decoder on a new buffer at every call,
  so each is a function of its argument alone.
\<close>

type_synonym gob_Encode = "WriteOperation \<Rightarrow> error + bytes"

type_synonym gob_Decode = "bytes \<Rightarrow> error + WriteOperation"

text \<open>\<^verbatim>\<open>type WriteAheadLog struct { log *FileLog; data map[string][]byte }\<close>
  (lines 12-19). The log is held by value: closing \<^verbatim>\<open>wal.log\<close> is an update of the field.\<close>

record WriteAheadLog =
  log :: FileLog
  data :: "bytes \<Rightarrow> bytes option"

text \<open>\<^verbatim>\<open>Get\<close> (lines 61-63): the map entry, or the zero value of \<^verbatim>\<open>[]byte\<close>, and a nil
  error.\<close>

definition Get :: "WriteAheadLog \<Rightarrow> bytes \<Rightarrow> bytes \<times> error option" where
  "Get wal key = ((case data wal key of None \<Rightarrow> [] | Some v \<Rightarrow> v), None)"

text \<open>\<^verbatim>\<open>Put\<close> (lines 65-91) and \<^verbatim>\<open>Delete\<close> (lines 93-118): encode the operation, append
  the encoding, and only then update the map; either error returns at once.\<close>

definition Put :: "gob_Encode \<Rightarrow> WriteAheadLog \<Rightarrow> bytes \<Rightarrow> bytes \<Rightarrow> disk
    \<Rightarrow> error option \<times> WriteAheadLog \<times> disk" where
  "Put enc wal key val d =
     (let op = \<lparr>WriteOperationType = PUT, Key = key, Value = val\<rparr>
      in case enc op of
           Inl err \<Rightarrow> (Some err, wal, d)
         | Inr buf \<Rightarrow>
             (case Append (log wal) buf d of
                (Inl err, lg, d') \<Rightarrow> (Some err, wal\<lparr>log := lg\<rparr>, d')
              | (Inr _, lg, d') \<Rightarrow> (None, wal\<lparr>log := lg, data := (data wal)(key \<mapsto> val)\<rparr>, d')))"

definition Delete :: "gob_Encode \<Rightarrow> WriteAheadLog \<Rightarrow> bytes \<Rightarrow> disk
    \<Rightarrow> error option \<times> WriteAheadLog \<times> disk" where
  "Delete enc wal key d =
     (let op = \<lparr>WriteOperationType = DELETE, Key = key, Value = []\<rparr>
      in case enc op of
           Inl err \<Rightarrow> (Some err, wal, d)
         | Inr buf \<Rightarrow>
             (case Append (log wal) buf d of
                (Inl err, lg, d') \<Rightarrow> (Some err, wal\<lparr>log := lg\<rparr>, d')
              | (Inr _, lg, d') \<Rightarrow> (None, wal\<lparr>log := lg, data := (data wal)(key := None)\<rparr>, d')))"

text \<open>The \<^verbatim>\<open>switch op.WriteOperationType\<close> of \<^verbatim>\<open>readAllLogEntries\<close> (lines 150-157):
  it has no default case.\<close>

definition apply_op :: "WriteOperation \<Rightarrow> (bytes \<Rightarrow> bytes option) \<Rightarrow> (bytes \<Rightarrow> bytes option)" where
  "apply_op op m =
     (if WriteOperationType op = PUT then m(Key op \<mapsto> Value op)
      else if WriteOperationType op = DELETE then m(Key op := None)
      else m)"

text \<open>The length of the file behind a log (0 for a closed log): the measure under
  which the replay loop ends.\<close>

definition file_length :: "FileLog \<Rightarrow> disk \<Rightarrow> nat" where
  "file_length fl d = (case file fl of None \<Rightarrow> 0 | Some f \<Rightarrow> length (contents d f))"

section \<open>Histories of calls, and replay in the words of the specification\<close>

text \<open>A caller's history: calls of \<^verbatim>\<open>Put\<close> and \<^verbatim>\<open>Delete\<close> on the store, and closing the
  log the store holds (\<^verbatim>\<open>wal.log.Close()\<close>, as the tests do). \<open>run\<close> makes the calls in
  order and collects the errors they return.\<close>

datatype command = CmdPut bytes bytes | CmdDelete bytes | CmdCloseLog

fun exec :: "gob_Encode \<Rightarrow> command \<Rightarrow> WriteAheadLog \<Rightarrow> disk \<Rightarrow> error option \<times> WriteAheadLog \<times> disk" where
  "exec enc (CmdPut key val) wal d = Put enc wal key val d"
| "exec enc (CmdDelete key) wal d = Delete enc wal key d"
| "exec enc CmdCloseLog wal d = (case Close (log wal) of (err, lg) \<Rightarrow> (err, wal\<lparr>log := lg\<rparr>, d))"

fun run :: "gob_Encode \<Rightarrow> command list \<Rightarrow> WriteAheadLog \<Rightarrow> disk
    \<Rightarrow> error option list \<times> WriteAheadLog \<times> disk" where
  "run enc [] wal d = ([], wal, d)"
| "run enc (c # cs) wal d =
     (case exec enc c wal d of
        (err, wal', d') \<Rightarrow>
          (case run enc cs wal' d' of
             (errs, wal'', d'') \<Rightarrow> (err # errs, wal'', d'')))"

text \<open>Whether a call of the history wrote the key: a Put or Delete of that key that
  returned nil.\<close>

fun wrote :: "bytes \<Rightarrow> command \<times> error option \<Rightarrow> bool" where
  "wrote k (CmdPut key val, err) = (err = None \<and> key = k)"
| "wrote k (CmdDelete key, err) = (err = None \<and> key = k)"
| "wrote k (CmdCloseLog, err) = False"

text \<open>What a successful call of the history does to the store, in the words of the
  specification: Put inserts or overwrites, Delete removes.\<close>

fun apply_command :: "command \<Rightarrow> (bytes \<Rightarrow> bytes option) \<Rightarrow> (bytes \<Rightarrow> bytes option)" where
  "apply_command (CmdPut key val) m = m(key \<mapsto> val)"
| "apply_command (CmdDelete key) m = m(key := None)"
| "apply_command CmdCloseLog m = m"

text \<open>Replay as the specification words it: the operations decoded from the payloads,
  applied to the map in log order; the first payload that does not decode ends it.\<close>

fun replay :: "gob_Decode \<Rightarrow> bytes list \<Rightarrow> (bytes \<Rightarrow> bytes option) \<Rightarrow> error + (bytes \<Rightarrow> bytes option)" where
  "replay dec [] m = Inr m"
| "replay dec (p # ps) m =
     (case dec p of
        Inl err \<Rightarrow> Inl err
      | Inr op \<Rightarrow> replay dec ps (apply_op op m))"

section \<open>A stand-in codec and example values\<close>

text \<open>A stand-in for the gob encoding, to run the model on concrete inputs: one byte for
  the type, one for the length of the key, the key, the value.\<close>

definition demo_Encode :: gob_Encode where
  "demo_Encode op =
     (if 0 \<le> WriteOperationType op \<and> WriteOperationType op < 256 \<and> length (Key op) < 256
         \<and> length (Key op) + length (Value op) + 2 \<le> maxAlloc
      then Inr (word_of_int (WriteOperationType op) # of_nat (length (Key op)) # Key op @ Value op)
      else Inl (GobError ''encode''))"

definition demo_Decode :: gob_Decode where
  "demo_Decode p =
     (case p of
        t # n # rest \<Rightarrow>
          if unat n \<le> length rest
          then Inr \<lparr>WriteOperationType = uint t, Key = take (unat n) rest, Value = drop (unat n) rest\<rparr>
          else Inl (GobError ''decode'')
      | _ \<Rightarrow> Inl (GobError ''decode''))"

text \<open>An open log on the path \<open>wal\<close>, as \<^verbatim>\<open>NewFileLog\<close> returns it.\<close>

definition example_log :: FileLog where
  "example_log = \<lparr>file = Some \<lparr>path = ''wal'', pos = 0\<rparr>, buffer = []\<rparr>"

text \<open>The disk with the empty file \<open>wal\<close>; the store \<^verbatim>\<open>NewWriteAheadLog\<close> builds on it; a
  history whose last call fails because the log was closed.\<close>

definition example_disk :: disk where
  "example_disk = Map.empty(''wal'' \<mapsto> [])"

definition example_wal :: WriteAheadLog where
  "example_wal = \<lparr>log = example_log, data = Map.empty\<rparr>"

definition example_history :: "command list" where
  "example_history = [CmdPut [7] [8], CmdCloseLog, CmdDelete [7]]"

text \<open>The history of the specification's replay example, with \<open>K = [75]\<close>, \<open>A = [65]\<close>,
  \<open>B = [66]\<close>, \<open>C = [67]\<close>.\<close>

definition K_history :: "command list" where
  "K_history = [CmdPut [75] [65], CmdPut [75] [66], CmdDelete [75], CmdPut [75] [67]]"

text \<open>The two records of \<^verbatim>\<open>TestReadAtInvalidOffsets\<close>: the bytes of \<^verbatim>\<open>"hello, world"\<close> and
  of \<^verbatim>\<open>"goodbye, world"\<close>.\<close>

definition hello_world :: bytes where
  "hello_world = [104, 101, 108, 108, 111, 44, 32, 119, 111, 114, 108, 100]"

definition goodbye_world :: bytes where
  "goodbye_world = [103, 111, 111, 100, 98, 121, 101, 44, 32, 119, 111, 114, 108, 100]"

section \<open>Facts about the library model\<close>

lemma contents_pos_update [simp]: "contents d (f\<lparr>pos := p\<rparr>) = contents d f"
  by (simp add: contents_def)

lemma Seek_start_Some:
  "Seek (Some f) off SeekStart d =
     (if off < 0 then (Inl PathError_EINVAL, Some f) else (Inr off, Some (f\<lparr>pos := nat off\<rparr>)))"
  by (simp add: Seek_def)

lemma Seek_end_Some:
  "Seek (Some f) 0 SeekEnd d =
     (Inr (int (length (contents d f))), Some (f\<lparr>pos := length (contents d f)\<rparr>))"
  by (simp add: Seek_def)

lemma Seek_None: "Seek None off wh d = (Inl ErrInvalid, None)"
  by (simp add: Seek_def)

lemma ReadFull_avail:
  assumes "drop (pos f) (contents d f) = xs @ ys" and "length xs = n"
  shows "ReadFull (Some f) n d = (Inr xs, Some (f\<lparr>pos := pos f + n\<rparr>))"
  using assms by (auto simp: ReadFull_def Let_def)

lemma ReadFull_Inr_D:
  assumes "ReadFull (Some f) n d = (Inr xs, fp')"
  shows "length xs = n \<and> drop (pos f) (contents d f) = xs @ drop (pos f + n) (contents d f)
         \<and> fp' = Some (f\<lparr>pos := pos f + n\<rparr>)"
proof (cases "n = 0")
  case True
  with assms show ?thesis by (auto simp: ReadFull_def)
next
  case False
  let ?avail = "drop (pos f) (contents d f)"
  from assms False have ge: "n \<le> length ?avail" and xs: "xs = take n ?avail"
    and fp: "fp' = Some (f\<lparr>pos := pos f + n\<rparr>)"
    by (auto simp: ReadFull_def Let_def split: if_splits)
  have "drop n ?avail = drop (pos f + n) (contents d f)" by (simp add: add.commute)
  with append_take_drop_id[of n ?avail] have "?avail = xs @ drop (pos f + n) (contents d f)"
    unfolding xs by metis
  moreover have "length xs = n" using ge xs by simp
  ultimately show ?thesis using fp by simp
qed

subsection \<open>Big-endian round trips\<close>

lemma length_PutUint64 [simp]: "length (PutUint64 v) = 8"
  by (simp add: PutUint64_def)

lemma length_PutUint32 [simp]: "length (PutUint32 v) = 4"
  by (simp add: PutUint32_def)

lemma bit_byte_lt8: "bit (b::byte) m \<Longrightarrow> m < 8"
  by (drule bit_imp_le_length) simp

lemma bit_piece64:
  "bit (push_bit k (ucast (ucast (drop_bit k (v::uint64)) :: byte)) :: uint64) n
     \<longleftrightarrow> k \<le> n \<and> n < k + 8 \<and> n < 64 \<and> bit v n"
  by (auto simp: bit_simps)

lemma bit_piece64_0:
  "bit (ucast (ucast (v::uint64) :: byte) :: uint64) n \<longleftrightarrow> n < 8 \<and> bit v n"
  by (auto simp: bit_simps)

lemma Uint64_PutUint64 [simp]: "Uint64 (PutUint64 v) = v"
proof (rule bit_word_eqI)
  fix n assume "n < LENGTH(64)"
  then have n: "n < 64" by simp
  have "bit (Uint64 (PutUint64 v)) n \<longleftrightarrow>
    (n < 8 \<or> (8 \<le> n \<and> n < 16) \<or> (16 \<le> n \<and> n < 24) \<or> (24 \<le> n \<and> n < 32) \<or>
     (32 \<le> n \<and> n < 40) \<or> (40 \<le> n \<and> n < 48) \<or> (48 \<le> n \<and> n < 56) \<or> (56 \<le> n \<and> n < 64)) \<and> bit v n"
    unfolding Uint64_def PutUint64_def
    by (simp add: bit_or_iff bit_piece64 bit_piece64_0 n) blast
  also have "\<dots> \<longleftrightarrow> bit v n" using n by auto
  finally show "bit (Uint64 (PutUint64 v)) n \<longleftrightarrow> bit v n" .
qed

lemma bit_piece32:
  "bit (push_bit k (ucast (ucast (drop_bit k (v::uint32)) :: byte)) :: uint32) n
     \<longleftrightarrow> k \<le> n \<and> n < k + 8 \<and> n < 32 \<and> bit v n"
  by (auto simp: bit_simps)

lemma bit_piece32_0:
  "bit (ucast (ucast (v::uint32) :: byte) :: uint32) n \<longleftrightarrow> n < 8 \<and> bit v n"
  by (auto simp: bit_simps)

lemma Uint32_PutUint32 [simp]: "Uint32 (PutUint32 v) = v"
proof (rule bit_word_eqI)
  fix n assume "n < LENGTH(32)"
  then have n: "n < 32" by simp
  have "bit (Uint32 (PutUint32 v)) n \<longleftrightarrow>
    (n < 8 \<or> (8 \<le> n \<and> n < 16) \<or> (16 \<le> n \<and> n < 24) \<or> (24 \<le> n \<and> n < 32)) \<and> bit v n"
    unfolding Uint32_def PutUint32_def
    by (simp add: bit_or_iff bit_piece32 bit_piece32_0 n) blast
  also have "\<dots> \<longleftrightarrow> bit v n" using n by auto
  finally show "bit (Uint32 (PutUint32 v)) n \<longleftrightarrow> bit v n" .
qed

lemma bit_push_ucast64:
  "bit (push_bit k (ucast (b::byte)) :: uint64) m \<longleftrightarrow> k \<le> m \<and> m < 64 \<and> bit b (m - k)"
  by (auto simp: bit_simps)

lemma bit_ucast64:
  "bit (ucast (b::byte) :: uint64) m \<longleftrightarrow> bit b m"
  by (auto simp: bit_simps dest: bit_byte_lt8)

lemma bit_push_ucast32:
  "bit (push_bit k (ucast (b::byte)) :: uint32) m \<longleftrightarrow> k \<le> m \<and> m < 32 \<and> bit b (m - k)"
  by (auto simp: bit_simps)

lemma bit_ucast32:
  "bit (ucast (b::byte) :: uint32) m \<longleftrightarrow> bit b m"
  by (auto simp: bit_simps dest: bit_byte_lt8)

lemma length8D:
  "length (b::'a list) = 8 \<Longrightarrow> \<exists>b0 b1 b2 b3 b4 b5 b6 b7. b = [b0,b1,b2,b3,b4,b5,b6,b7]"
  by (auto simp: length_Suc_conv eval_nat_numeral)

lemma length4D:
  "length (b::'a list) = 4 \<Longrightarrow> \<exists>b0 b1 b2 b3. b = [b0,b1,b2,b3]"
  by (auto simp: length_Suc_conv eval_nat_numeral)

lemma byte_of_Uint64:
  "k \<in> {0,8,16,24,32,40,48,56} \<Longrightarrow>
   (ucast (drop_bit k (Uint64 [b0,b1,b2,b3,b4,b5,b6,b7])) :: byte) = [b7,b6,b5,b4,b3,b2,b1,b0] ! (k div 8)"
  apply (rule bit_word_eqI)
  apply (simp add: Uint64_def bit_ucast_iff bit_drop_bit_eq bit_or_iff bit_push_ucast64 bit_ucast64)
  apply (elim disjE; auto dest: bit_byte_lt8)
  done

lemma PutUint64_Uint64: "length b = 8 \<Longrightarrow> PutUint64 (Uint64 b) = b"
proof -
  assume "length b = 8"
  then obtain b0 b1 b2 b3 b4 b5 b6 b7 where b: "b = [b0,b1,b2,b3,b4,b5,b6,b7]"
    using length8D by blast
  have z: "ucast (Uint64 [b0,b1,b2,b3,b4,b5,b6,b7])
      = (ucast (drop_bit 0 (Uint64 [b0,b1,b2,b3,b4,b5,b6,b7])) :: byte)"
    by simp
  show ?thesis unfolding b PutUint64_def z
    by (simp only: byte_of_Uint64 insert_iff simp_thms) simp
qed

lemma byte_of_Uint32:
  "k \<in> {0,8,16,24} \<Longrightarrow>
   (ucast (drop_bit k (Uint32 [b0,b1,b2,b3])) :: byte) = [b3,b2,b1,b0] ! (k div 8)"
  apply (rule bit_word_eqI)
  apply (simp add: Uint32_def bit_ucast_iff bit_drop_bit_eq bit_or_iff bit_push_ucast32 bit_ucast32)
  apply (elim disjE; auto dest: bit_byte_lt8)
  done

lemma PutUint32_Uint32: "length b = 4 \<Longrightarrow> PutUint32 (Uint32 b) = b"
proof -
  assume "length b = 4"
  then obtain b0 b1 b2 b3 where b: "b = [b0,b1,b2,b3]"
    using length4D by blast
  have z: "ucast (Uint32 [b0,b1,b2,b3]) = (ucast (drop_bit 0 (Uint32 [b0,b1,b2,b3])) :: byte)"
    by simp
  show ?thesis unfolding b PutUint32_def z
    by (simp only: byte_of_Uint32 insert_iff simp_thms) simp
qed

subsection \<open>The checksum tells two payloads apart that differ in one byte\<close>

lemma xor_cancel_right: "(a::'a::len word) XOR c = b XOR c \<longleftrightarrow> a = b"
  by (auto simp: bit_eq_iff bit_xor_iff)

lemma xor_cancel_left: "(c::'a::len word) XOR a = c XOR b \<longleftrightarrow> a = b"
  by (auto simp: bit_eq_iff bit_xor_iff)

lemma and_one_eq_one_iff: "(c::uint32) AND 1 = 1 \<longleftrightarrow> bit c 0"
  by (simp add: and_one_eq bit_0 mod_2_eq_odd)

lemma crc_bit_alt: "crc_bit c = (if bit c 0 then drop_bit 1 c XOR IEEE else drop_bit 1 c)"
  by (simp add: crc_bit_def and_one_eq_one_iff)

lemma bit31_IEEE: "bit IEEE 31"
  by (simp add: IEEE_def)

lemma bit31_crc_bit: "bit (crc_bit c) 31 \<longleftrightarrow> bit c 0"
  using bit31_IEEE
  by (auto simp: crc_bit_alt bit_xor_iff bit_drop_bit_eq dest: bit_imp_le_length)

lemma crc_bit_inj: "crc_bit x = crc_bit y \<Longrightarrow> x = y"
proof -
  assume eq: "crc_bit x = crc_bit y"
  then have b0: "bit x 0 \<longleftrightarrow> bit y 0"
    using bit31_crc_bit[of x] bit31_crc_bit[of y] by simp
  with eq have d: "drop_bit 1 x = drop_bit 1 y"
    by (simp add: crc_bit_alt xor_cancel_right split: if_splits)
  show "x = y"
  proof (rule bit_eqI)
    fix n
    show "bit x n \<longleftrightarrow> bit y n"
    proof (cases n)
      case 0 with b0 show ?thesis by simp
    next
      case (Suc m)
      have "bit (drop_bit 1 x) m \<longleftrightarrow> bit (drop_bit 1 y) m" using d by simp
      then show ?thesis by (simp add: bit_drop_bit_eq Suc)
    qed
  qed
qed

lemma crc_bit_pow_inj: "(crc_bit ^^ n) x = (crc_bit ^^ n) y \<Longrightarrow> x = y"
  by (induction n) (auto dest: crc_bit_inj)

lemma ucast_byte_inj: "(ucast (a::byte) :: uint32) = ucast b \<Longrightarrow> a = b"
proof (rule bit_word_eqI)
  fix n assume eq: "(ucast a :: uint32) = ucast b" and n: "n < LENGTH(8)"
  have "bit (ucast a :: uint32) n = bit (ucast b :: uint32) n" using eq by simp
  then show "bit a n = bit b n" using n by (simp add: bit_ucast_iff)
qed

lemma crc_update_inj_state: "crc_update c v = crc_update c' v \<Longrightarrow> c = c'"
  by (auto simp: crc_update_def xor_cancel_right dest!: crc_bit_pow_inj)

lemma crc_update_inj_byte: "crc_update c v = crc_update c v' \<Longrightarrow> v = v'"
  by (auto simp: crc_update_def xor_cancel_left dest!: crc_bit_pow_inj ucast_byte_inj)

lemma foldl_crc_inj: "foldl crc_update c p = foldl crc_update c' p \<Longrightarrow> c = c'"
  by (induction p arbitrary: c c') (auto dest: crc_update_inj_state)

lemma ChecksumIEEE_changed_byte:
  "v \<noteq> v' \<Longrightarrow> ChecksumIEEE (xs @ v # ys) \<noteq> ChecksumIEEE (xs @ v' # ys)"
  by (auto simp: ChecksumIEEE_def dest!: foldl_crc_inj crc_update_inj_byte)

lemma flip_bit_neq: "j < 8 \<Longrightarrow> (b::byte) XOR push_bit j 1 \<noteq> b"
proof
  assume j: "j < 8" and eq: "b XOR push_bit j 1 = b"
  have "bit (b XOR push_bit j 1) j \<longleftrightarrow> \<not> bit b j"
    using j by (simp add: bit_simps)
  with eq show False by simp
qed

subsection \<open>Evaluating the checksum\<close>

lemma crc_update_unfold:
  "crc_update crc v =
     crc_bit (crc_bit (crc_bit (crc_bit (crc_bit (crc_bit (crc_bit (crc_bit (crc XOR ucast v))))))))"
  by (simp add: crc_update_def eval_nat_numeral)

lemma ChecksumIEEE_Nil [simp]: "ChecksumIEEE [] = 0"
  by (simp add: ChecksumIEEE_def)

text \<open>The check value of CRC-32/IEEE: the checksum of the ASCII digits \<open>123456789\<close>.\<close>

lemma ChecksumIEEE_check: "ChecksumIEEE [0x31,0x32,0x33,0x34,0x35,0x36,0x37,0x38,0x39] = 0xCBF43926"
  by (simp add: ChecksumIEEE_def crc_update_unfold crc_bit_def IEEE_def)

subsection \<open>Offsets\<close>

lemma unat_of_nat64: "n < 2 ^ 64 \<Longrightarrow> unat (of_nat n :: uint64) = n"
  by (simp add: unat_of_nat)

lemma sint_nonneg_unat: "0 \<le> sint (w::uint64) \<Longrightarrow> nat (sint w) = unat w"
proof -
  assume nn: "0 \<le> sint w"
  have "sint w < 2 ^ 63" using sint_lt[of w] by simp
  with nn have "take_bit 64 (sint w) = sint w"
    by (simp add: take_bit_int_eq_self)
  then have "uint w = sint w" using uint_sint[of w] by simp
  then show ?thesis by (simp add: unat_eq_nat_uint del: nat_uint_eq)
qed

lemma sint_of_nat64: "n < 2 ^ 63 \<Longrightarrow> sint (of_nat n :: uint64) = int n"
proof -
  assume "n < 2 ^ 63"
  then have "int n < 2 ^ 63" by (metis of_nat_less_iff of_nat_numeral of_nat_power)
  then have "signed_take_bit 63 (int n) = int n"
    by (simp add: signed_take_bit_int_eq_self)
  then show ?thesis
    using sint_sbintrunc'[where 'a = 64, of "int n"] by simp
qed

section \<open>Facts about Read and Append\<close>

lemma maxAlloc_lt: "maxAlloc < 2 ^ 64"
  by (simp add: maxAlloc_def)

lemma binary_Read_uint64_avail:
  assumes "drop (pos f) (contents d f) = PutUint64 v @ ys"
  shows "binary_Read_uint64 (Some f) d = (Inr v, Some (f\<lparr>pos := pos f + 8\<rparr>))"
  using ReadFull_avail[OF assms, of 8] by (simp add: binary_Read_uint64_def)

lemma binary_Read_uint32_avail:
  assumes "drop (pos f) (contents d f) = c @ ys" "length c = 4"
  shows "binary_Read_uint32 (Some f) d = (Inr (Uint32 c), Some (f\<lparr>pos := pos f + 4\<rparr>))"
  using ReadFull_avail[OF assms] by (simp add: binary_Read_uint32_def)

text \<open>Forward: what Read does when a frame-shaped run of bytes stands at the offset.\<close>

lemma Read_framed:
  assumes fl: "file fl = Some f"
    and off: "0 \<le> sint off"
    and bs: "drop (unat off) (contents d f) = PutUint64 (of_nat (length r)) @ r @ c @ rest"
    and r: "length r \<le> maxAlloc"
    and c: "length c = 4"
  shows "Read fl off d =
    ((if ChecksumIEEE r \<noteq> Uint32 c then Inl ErrCorruption
      else Inr (r, off + 8 + of_nat (length r) + 4)),
     fl\<lparr>file := Some (f\<lparr>pos := unat off + 8 + length r + 4\<rparr>)\<rparr>)"
proof -
  let ?n = "length r"
  let ?f1 = "f\<lparr>pos := unat off\<rparr>"
  let ?f2 = "f\<lparr>pos := unat off + 8\<rparr>"
  let ?f3 = "f\<lparr>pos := unat off + 8 + ?n\<rparr>"
  have s1: "Seek (file fl) (sint off) SeekStart d = (Inr (sint off), Some ?f1)"
    using fl off by (simp add: Seek_start_Some sint_nonneg_unat)
  have "drop (pos ?f1) (contents d ?f1) = PutUint64 (of_nat ?n) @ (r @ c @ rest)"
    using bs by simp
  from binary_Read_uint64_avail[OF this]
  have s2: "binary_Read_uint64 (Some ?f1) d = (Inr (of_nat ?n), Some ?f2)" by simp
  have un: "unat (of_nat ?n :: uint64) = ?n"
    using r maxAlloc_lt by (simp add: unat_of_nat64)
  have s3: "make_bytes (of_nat ?n) = Inr ?n"
    using r by (simp add: make_bytes_def un)
  have d8: "drop (unat off + 8) (contents d f) = r @ c @ rest"
    using arg_cong[OF bs, of "drop 8"] by (simp add: add.commute)
  then have "drop (pos ?f2) (contents d ?f2) = r @ (c @ rest)" by simp
  from ReadFull_avail[OF this refl]
  have s4: "ReadFull (Some ?f2) ?n d = (Inr r, Some ?f3)" by simp
  have "drop (unat off + 8 + ?n) (contents d f) = c @ rest"
    using arg_cong[OF d8, of "drop ?n"] by (simp add: add.commute)
  then have "drop (pos ?f3) (contents d ?f3) = c @ rest" by simp
  from binary_Read_uint32_avail[OF this c]
  have s5: "binary_Read_uint32 (Some ?f3) d = (Inr (Uint32 c), Some (f\<lparr>pos := unat off + 8 + ?n + 4\<rparr>))"
    by simp
  show ?thesis
    by (simp add: Read_def s1 s2 s3 s4 s5)
qed

text \<open>Backward: a successful Read found a frame at the offset.\<close>

lemma binary_Read_uint64_Inr_D:
  assumes "binary_Read_uint64 (Some f) d = (Inr v, fp')"
  shows "drop (pos f) (contents d f) = PutUint64 v @ drop (pos f + 8) (contents d f)
         \<and> fp' = Some (f\<lparr>pos := pos f + 8\<rparr>)"
proof -
  from assms obtain xs where rf: "ReadFull (Some f) 8 d = (Inr xs, fp')" and v: "v = Uint64 xs"
    by (auto simp: binary_Read_uint64_def split: prod.splits sum.splits)
  from ReadFull_Inr_D[OF rf] have l: "length xs = 8"
    and dr: "drop (pos f) (contents d f) = xs @ drop (pos f + 8) (contents d f)"
    and fp: "fp' = Some (f\<lparr>pos := pos f + 8\<rparr>)" by auto
  from l have "PutUint64 v = xs" by (simp add: v PutUint64_Uint64)
  with dr fp show ?thesis by simp
qed

lemma binary_Read_uint32_Inr_D:
  assumes "binary_Read_uint32 (Some f) d = (Inr v, fp')"
  shows "drop (pos f) (contents d f) = PutUint32 v @ drop (pos f + 4) (contents d f)
         \<and> fp' = Some (f\<lparr>pos := pos f + 4\<rparr>)"
proof -
  from assms obtain xs where rf: "ReadFull (Some f) 4 d = (Inr xs, fp')" and v: "v = Uint32 xs"
    by (auto simp: binary_Read_uint32_def split: prod.splits sum.splits)
  from ReadFull_Inr_D[OF rf] have l: "length xs = 4"
    and dr: "drop (pos f) (contents d f) = xs @ drop (pos f + 4) (contents d f)"
    and fp: "fp' = Some (f\<lparr>pos := pos f + 4\<rparr>)" by auto
  from l have "PutUint32 v = xs" by (simp add: v PutUint32_Uint32)
  with dr fp show ?thesis by simp
qed

lemma Read_Inr_D:
  assumes fl: "file fl = Some f"
    and rd: "Read fl off d = (Inr (r, nxt), fl')"
  shows "0 \<le> sint off \<and> length r \<le> maxAlloc
    \<and> drop (unat off) (contents d f) = frame r @ drop (unat off + 8 + length r + 4) (contents d f)
    \<and> nxt = off + 8 + of_nat (length r) + 4
    \<and> fl' = fl\<lparr>file := Some (f\<lparr>pos := unat off + 8 + length r + 4\<rparr>)\<rparr>"
proof -
  let ?bs = "contents d f"
  let ?f1 = "f\<lparr>pos := unat off\<rparr>"
  from rd fl have off: "0 \<le> sint off"
    by (auto simp: Read_def Seek_start_Some split: if_splits)
  then have s1: "Seek (file fl) (sint off) SeekStart d = (Inr (sint off), Some ?f1)"
    using fl by (simp add: Seek_start_Some sint_nonneg_unat)
  from rd obtain v f2 where s2: "binary_Read_uint64 (Some ?f1) d = (Inr v, f2)"
    by (auto simp: Read_def s1 split: prod.splits sum.splits)
  from binary_Read_uint64_Inr_D[OF s2]
  have d0: "drop (unat off) ?bs = PutUint64 v @ drop (unat off + 8) ?bs"
    and f2: "f2 = Some (f\<lparr>pos := unat off + 8\<rparr>)" by auto
  let ?f2 = "f\<lparr>pos := unat off + 8\<rparr>"
  from rd have mk: "make_bytes v = Inr (unat v)" and le: "unat v \<le> maxAlloc"
    by (auto simp: Read_def s1 s2 make_bytes_def split: prod.splits sum.splits if_splits)
  from rd obtain f3 where s4: "ReadFull (Some ?f2) (unat v) d = (Inr r, f3)"
    by (auto simp: Read_def s1 s2 f2 mk split: prod.splits sum.splits if_splits)
  from ReadFull_Inr_D[OF s4]
  have lr: "length r = unat v"
    and d8: "drop (unat off + 8) ?bs = r @ drop (unat off + 8 + unat v) ?bs"
    and f3: "f3 = Some (f\<lparr>pos := unat off + 8 + unat v\<rparr>)" by auto
  let ?f3 = "f\<lparr>pos := unat off + 8 + unat v\<rparr>"
  from rd obtain ck f4 where s5: "binary_Read_uint32 (Some ?f3) d = (Inr ck, f4)"
    and ck: "ChecksumIEEE r = ck" and nxt: "nxt = off + 8 + v + 4" and fl': "fl' = fl\<lparr>file := f4\<rparr>"
    by (auto simp: Read_def s1 s2 f2 mk s4 f3 split: prod.splits sum.splits if_splits)
  from binary_Read_uint32_Inr_D[OF s5]
  have d12: "drop (unat off + 8 + unat v) ?bs = PutUint32 ck @ drop (unat off + 8 + unat v + 4) ?bs"
    and f4: "f4 = Some (f\<lparr>pos := unat off + 8 + unat v + 4\<rparr>)" by auto
  have v: "of_nat (length r) = v" by (simp add: lr)
  have "drop (unat off) ?bs = frame r @ drop (unat off + 8 + length r + 4) ?bs"
    unfolding frame_def v ck using d0 d8 d12 by (simp add: lr)
  then show ?thesis using off le lr nxt fl' f4 v by simp
qed

lemma Write_at_end:
  assumes "pos f = length (contents d f)"
  shows "Write (Some f) b d =
    (let b' = take (max_file_size - pos f) b in
     ((if length b' < length b then Inl PathError_EFBIG else Inr (length b)),
      Some (f\<lparr>pos := pos f + length b'\<rparr>),
      (if b' = [] then d else d(path f \<mapsto> contents d f @ b'))))"
  using assms by (simp add: Write_def Let_def)

lemma frame_not_Nil [simp]: "frame r \<noteq> []"
  by (simp add: frame_def PutUint64_def)

lemma length_frame [simp]: "length (frame r) = 8 + length r + 4"
  by (simp add: frame_def)

lemma Append_open:
  assumes fl: "file fl = Some f"
  shows "Append fl r d =
    (let bs = contents d f in
     if maxAlloc < 8 + length r + 4 then (Inl Panic_ErrTooLarge, fl\<lparr>file := Some (f\<lparr>pos := length bs\<rparr>)\<rparr>, d)
     else if length bs + (8 + length r + 4) \<le> max_file_size
       then (Inr (of_nat (length bs)), fl\<lparr>file := Some (f\<lparr>pos := length bs + (8 + length r + 4)\<rparr>)\<rparr>,
             d(path f \<mapsto> bs @ frame r))
       else (Inl PathError_EFBIG,
             fl\<lparr>file := Some (f\<lparr>pos := length bs + length (take (max_file_size - length bs) (frame r))\<rparr>)\<rparr>,
             (if take (max_file_size - length bs) (frame r) = [] then d
              else d(path f \<mapsto> bs @ take (max_file_size - length bs) (frame r)))))"
proof -
  let ?bs = "contents d f"
  let ?f1 = "f\<lparr>pos := length ?bs\<rparr>"
  have m8: "\<not> maxAlloc < 8" by (simp add: maxAlloc_def)
  have s1: "Seek (file fl) 0 SeekEnd d = (Inr (int (length ?bs)), Some ?f1)"
    by (simp add: fl Seek_end_Some)
  have w: "Write (Some ?f1) (frame r) d =
    (let b' = take (max_file_size - length ?bs) (frame r) in
     ((if length b' < length (frame r) then Inl PathError_EFBIG else Inr (length (frame r))),
      Some (f\<lparr>pos := length ?bs + length b'\<rparr>),
      (if b' = [] then d else d(path f \<mapsto> ?bs @ b'))))"
    using Write_at_end[of ?f1 d "frame r"] by (simp add: Let_def)
  show ?thesis
  proof (cases "maxAlloc < 8 + length r + 4")
    case True
    then show ?thesis
      by (simp add: Append_def s1 Buffer_Write_def m8 Let_def)
  next
    case False
    then have a: "Append fl r d =
      (case Write (Some ?f1) (frame r) d of
         (Inl err, f2, d') \<Rightarrow> (Inl err, fl\<lparr>file := f2\<rparr>, d')
       | (Inr n, f2, d') \<Rightarrow> (Inr (of_nat (length ?bs)), fl\<lparr>file := f2\<rparr>, d'))"
      by (simp add: Append_def s1 Buffer_Write_def m8 Let_def frame_def)
    show ?thesis
    proof (cases "length ?bs + (8 + length r + 4) \<le> max_file_size")
      case True
      then have "take (max_file_size - length ?bs) (frame r) = frame r" by simp
      then show ?thesis using False True by (simp add: a w Let_def)
    next
      case nofit: False
      then have "length (take (max_file_size - length ?bs) (frame r)) < length (frame r)" by simp
      then show ?thesis using False nofit by (simp add: a w Let_def)
    qed
  qed
qed

lemma Append_None: "file fl = None \<Longrightarrow> Append fl r d = (Inl ErrInvalid, fl, d)"
  by (simp add: Append_def Seek_None)

lemma Read_None: "file fl = None \<Longrightarrow> Read fl off d = (Inl ErrInvalid, fl)"
  by (simp add: Read_def Seek_None)

lemma Read_past_end:
  assumes fl: "file fl = Some f" and off: "0 \<le> sint off" and ge: "length (contents d f) \<le> unat off"
  shows "Read fl off d = (Inl EOF, fl\<lparr>file := Some (f\<lparr>pos := unat off\<rparr>)\<rparr>)"
  using assms
  by (simp add: Read_def Seek_start_Some sint_nonneg_unat binary_Read_uint64_def ReadFull_def)

lemma Read_negative:
  assumes fl: "file fl = Some f" and off: "sint off < 0"
  shows "Read fl off d = (Inl PathError_EINVAL, fl)"
  using assms by (simp add: Read_def Seek_start_Some)

lemma unat_lt_63:
  assumes "0 \<le> sint (off::uint64)"
  shows "unat off < 2 ^ 63"
proof -
  have "sint off < 2 ^ 63" using sint_lt[of off] by simp
  then have "nat (sint off) < nat (2 ^ 63)" using assms by (simp only: nat_mono_iff)
  then show ?thesis using sint_nonneg_unat[OF assms] by simp
qed

lemma unat_next_offset:
  assumes "0 \<le> sint (off::uint64)" "n \<le> maxAlloc"
  shows "unat (off + 8 + of_nat n + 4) = unat off + 8 + n + 4"
proof -
  have o: "unat off < 2 ^ 63" by (rule unat_lt_63[OF assms(1)])
  have n: "n \<le> 2 ^ 48" using assms(2) by (simp add: maxAlloc_def)
  have "of_nat (unat off + 8 + n + 4) = off + 8 + of_nat n + (4::uint64)" by simp
  moreover have "unat off + 8 + n + 4 < 2 ^ 64" using o n by simp
  ultimately show ?thesis using unat_of_nat64[of "unat off + 8 + n + 4"] by simp
qed

lemma Read_Inr_progress:
  assumes "Read fl off d = (Inr (r, nxt), fl')"
  shows "file_length fl' d = file_length fl d \<and> unat off < unat nxt \<and> unat nxt \<le> file_length fl d"
proof (cases "file fl")
  case None
  with assms show ?thesis by (simp add: Read_None)
next
  case (Some f)
  from Read_Inr_D[OF Some assms]
  have off: "0 \<le> sint off" and le: "length r \<le> maxAlloc"
    and dr: "drop (unat off) (contents d f) = frame r @ drop (unat off + 8 + length r + 4) (contents d f)"
    and nxt: "nxt = off + 8 + of_nat (length r) + 4"
    and fl': "fl' = fl\<lparr>file := Some (f\<lparr>pos := unat off + 8 + length r + 4\<rparr>)\<rparr>" by blast+
  have un: "unat nxt = unat off + 8 + length r + 4"
    unfolding nxt by (rule unat_next_offset[OF off le])
  have "length (drop (unat off) (contents d f)) = length (frame r @ drop (unat off + 8 + length r + 4) (contents d f))"
    using dr by (rule arg_cong)
  then have "unat off + 8 + length r + 4 \<le> length (contents d f)"
    by (simp only: length_append length_drop length_frame)
  moreover have "file_length fl' d = length (contents d f)" "file_length fl d = length (contents d f)"
    by (simp_all add: file_length_def Some fl')
  ultimately show ?thesis using un by linarith
qed

section \<open>wal.go: replay and construction\<close>

text \<open>
  The loop of \<^verbatim>\<open>readAllLogEntries\<close> (lines 127-161), from an offset and a map: read the
  record at the offset; on \<^verbatim>\<open>io.EOF\<close> stop with the map, on any other error return it;
  decode the record, returning the decoder's error; apply the operation and go on at
  the next offset. Every successful read moves the offset forward within the file, so
  the loop ends.
\<close>

function readLoop :: "gob_Decode \<Rightarrow> FileLog \<Rightarrow> disk \<Rightarrow> uint64 \<Rightarrow> (bytes \<Rightarrow> bytes option)
    \<Rightarrow> (error + (bytes \<Rightarrow> bytes option)) \<times> FileLog" where
  "readLoop dec lg d offset m =
     (case Read lg offset d of
        (Inl err, lg') \<Rightarrow> if err = EOF then (Inr m, lg') else (Inl err, lg')
      | (Inr (record, nextOffset), lg') \<Rightarrow>
          (case dec record of
             Inl err \<Rightarrow> (Inl err, lg')
           | Inr op \<Rightarrow> readLoop dec lg' d nextOffset (apply_op op m)))"
  by pat_completeness auto

termination
proof (relation "measure (\<lambda>(dec, lg, d, offset, m). file_length lg d - unat offset)")
  show "wf (measure (\<lambda>(dec, lg, d, offset, m). file_length lg d - unat offset))" by simp
next
  fix dec :: gob_Decode and lg d offset and m :: "bytes \<Rightarrow> bytes option"
    and res lg' rn r nxt op
  assume "(res, lg') = Read lg offset d" "res = Inr rn" "(r, nxt) = rn"
  then have "Read lg offset d = (Inr (r, nxt), lg')" by simp
  from Read_Inr_progress[OF this]
  have "file_length lg' d - unat nxt < file_length lg d - unat offset"
    by linarith
  then show "((dec, lg', d, nxt, apply_op op m), dec, lg, d, offset, m)
       \<in> measure (\<lambda>(dec, lg, d, offset, m). file_length lg d - unat offset)"
    by simp
qed

declare readLoop.simps [simp del]

text \<open>\<^verbatim>\<open>readAllLogEntries\<close> (lines 120-165) starts the loop at offset 0 with an empty
  map; \<^verbatim>\<open>NewWriteAheadLogWithFileLog\<close> (lines 49-59) and \<^verbatim>\<open>NewWriteAheadLog\<close>
  (lines 40-47) build the store from its result.\<close>

definition readAllLogEntries :: "gob_Decode \<Rightarrow> FileLog \<Rightarrow> disk
    \<Rightarrow> (error + (bytes \<Rightarrow> bytes option)) \<times> FileLog" where
  "readAllLogEntries dec lg d = readLoop dec lg d 0 Map.empty"

definition NewWriteAheadLogWithFileLog :: "gob_Decode \<Rightarrow> FileLog \<Rightarrow> disk
    \<Rightarrow> (error + WriteAheadLog) \<times> FileLog" where
  "NewWriteAheadLogWithFileLog dec lg d =
     (case readAllLogEntries dec lg d of
        (Inl err, lg') \<Rightarrow> (Inl err, lg')
      | (Inr m, lg') \<Rightarrow> (Inr \<lparr>log = lg', data = m\<rparr>, lg'))"

definition NewWriteAheadLog :: "gob_Decode \<Rightarrow> string \<Rightarrow> disk \<Rightarrow> (error + WriteAheadLog) \<times> disk" where
  "NewWriteAheadLog dec p d =
     (case NewFileLog p d of
        (Inl err, d') \<Rightarrow> (Inl err, d')
      | (Inr lg, d') \<Rightarrow> (fst (NewWriteAheadLogWithFileLog dec lg d'), d'))"

section \<open>Facts about the store\<close>

lemma contents_update_same: "contents (d(path f \<mapsto> bs)) f = bs"
  by (simp add: contents_def)

lemma Put_cases:
  "Put enc wal key val d =
     (case enc \<lparr>WriteOperationType = PUT, Key = key, Value = val\<rparr> of
        Inl err \<Rightarrow> (Some err, wal, d)
      | Inr buf \<Rightarrow>
          (case Append (log wal) buf d of
             (Inl err, lg, d') \<Rightarrow> (Some err, wal\<lparr>log := lg\<rparr>, d')
           | (Inr off, lg, d') \<Rightarrow> (None, wal\<lparr>log := lg, data := (data wal)(key \<mapsto> val)\<rparr>, d')))"
  by (simp add: Put_def Let_def)

lemma Delete_cases:
  "Delete enc wal key d =
     (case enc \<lparr>WriteOperationType = DELETE, Key = key, Value = []\<rparr> of
        Inl err \<Rightarrow> (Some err, wal, d)
      | Inr buf \<Rightarrow>
          (case Append (log wal) buf d of
             (Inl err, lg, d') \<Rightarrow> (Some err, wal\<lparr>log := lg\<rparr>, d')
           | (Inr off, lg, d') \<Rightarrow> (None, wal\<lparr>log := lg, data := (data wal)(key := None)\<rparr>, d')))"
  by (simp add: Delete_def Let_def)

lemma example_log_file: "file example_log = Some \<lparr>path = ''wal'', pos = 0\<rparr>"
  by (simp add: example_log_def)

lemma example_disk_contents: "contents example_disk \<lparr>path = ''wal'', pos = p\<rparr> = []"
  by (simp add: contents_def example_disk_def)

lemma demo_Encode_DELETE_7:
  "demo_Encode \<lparr>WriteOperationType = DELETE, Key = [7], Value = []\<rparr> = Inr [1, 1, 7]"
  by (simp add: demo_Encode_def DELETE_def maxAlloc_def)

lemma demo_Encode_PUT_7:
  "demo_Encode \<lparr>WriteOperationType = PUT, Key = [7], Value = [8]\<rparr> = Inr [0, 1, 7, 8]"
  by (simp add: demo_Encode_def PUT_def maxAlloc_def)

lemma Put_data:
  "Put enc wal key val d = (err, wal', d') \<Longrightarrow>
     data wal' = (if err = None then (data wal)(key \<mapsto> val) else data wal)"
  by (auto simp: Put_cases split: sum.splits prod.splits)

lemma Delete_data:
  "Delete enc wal key d = (err, wal', d') \<Longrightarrow>
     data wal' = (if err = None then (data wal)(key := None) else data wal)"
  by (auto simp: Delete_cases split: sum.splits prod.splits)

lemma exec_data_other:
  "exec enc c wal d = (err, wal', d') \<Longrightarrow> \<not> wrote k (c, err) \<Longrightarrow> data wal' k = data wal k"
  by (cases c) (auto dest!: Put_data Delete_data split: prod.splits if_splits)

lemma length_run: "run enc cs wal d = (errs, wal', d') \<Longrightarrow> length errs = length cs"
  by (induction cs arbitrary: wal d errs wal' d') (auto split: prod.splits)

lemma run_append:
  "run enc (cs1 @ cs2) wal d =
     (case run enc cs1 wal d of
        (errs1, wal1, d1) \<Rightarrow>
          (case run enc cs2 wal1 d1 of
             (errs2, wal2, d2) \<Rightarrow> (errs1 @ errs2, wal2, d2)))"
  by (induction cs1 arbitrary: wal d) (auto split: prod.splits)

lemma run_data_untouched:
  "run enc cs wal d = (errs, wal', d') \<Longrightarrow> \<forall>x \<in> set (zip cs errs). \<not> wrote k x
     \<Longrightarrow> data wal' k = data wal k"
proof (induction cs arbitrary: wal d errs wal' d')
  case Nil
  then show ?case by simp
next
  case (Cons c cs)
  obtain err wal1 d1 where e: "exec enc c wal d = (err, wal1, d1)" by (cases "exec enc c wal d")
  obtain errs1 wal2 d2 where r: "run enc cs wal1 d1 = (errs1, wal2, d2)"
    by (cases "run enc cs wal1 d1")
  from Cons.prems(1) e r have eq: "errs = err # errs1" "wal' = wal2" by auto
  from Cons.prems(2) eq have nw: "\<not> wrote k (c, err)" and rest: "\<forall>x \<in> set (zip cs errs1). \<not> wrote k x"
    by auto
  from Cons.IH[OF r rest] exec_data_other[OF e nw] eq show ?case by simp
qed

lemma run_split:
  assumes r: "run enc cs wal0 d0 = (errs, wal, d)"
    and z: "zip cs errs = pre @ (c, e) # post"
  shows "\<exists>wal1 d1 wal2 d2. exec enc c wal1 d1 = (e, wal2, d2)
           \<and> run enc (map fst post) wal2 d2 = (map snd post, wal, d)"
proof -
  have len: "length errs = length cs" by (rule length_run[OF r])
  have cs: "cs = map fst pre @ c # map fst post"
    using arg_cong[OF z, of "map fst"] len by simp
  have es: "errs = map snd pre @ e # map snd post"
    using arg_cong[OF z, of "map snd"] len by simp
  obtain errs1 wal1 d1 where r1: "run enc (map fst pre) wal0 d0 = (errs1, wal1, d1)"
    by (cases "run enc (map fst pre) wal0 d0")
  obtain e' wal2 d2 where ex: "exec enc c wal1 d1 = (e', wal2, d2)"
    by (cases "exec enc c wal1 d1")
  obtain errs2 wal3 d3 where r2: "run enc (map fst post) wal2 d2 = (errs2, wal3, d3)"
    by (cases "run enc (map fst post) wal2 d2")
  have l1: "length errs1 = length pre" using length_run[OF r1] by simp
  have "run enc cs wal0 d0 = (errs1 @ e' # errs2, wal3, d3)"
    unfolding cs by (simp add: run_append r1 ex r2)
  with r have "errs = errs1 @ e' # errs2" "wal = wal3" "d = d3" by simp_all
  with es l1 have "e' = e" "errs2 = map snd post" by simp_all
  with ex r2 \<open>wal = wal3\<close> \<open>d = d3\<close> show ?thesis by blast
qed

lemma zip_map_fst_snd: "zip (map fst xs) (map snd xs) = xs"
  by (induction xs) auto

lemma run_data_after_write:
  assumes r: "run enc cs wal0 d0 = (errs, wal, d)"
    and z: "zip cs errs = pre @ (c, None) # post"
    and post: "\<forall>x \<in> set post. \<not> wrote k x"
  shows "c = CmdPut k v \<Longrightarrow> data wal k = Some v"
    and "c = CmdDelete k \<Longrightarrow> data wal k = None"
proof -
  from run_split[OF r z] obtain wal1 d1 wal2 d2
    where ex: "exec enc c wal1 d1 = (None, wal2, d2)"
      and r2: "run enc (map fst post) wal2 d2 = (map snd post, wal, d)" by blast
  have keep: "data wal k = data wal2 k"
    using run_data_untouched[OF r2, of k] post by (simp add: zip_map_fst_snd)
  show "c = CmdPut k v \<Longrightarrow> data wal k = Some v"
    using ex keep by (auto dest!: Put_data)
  show "c = CmdDelete k \<Longrightarrow> data wal k = None"
    using ex keep by (auto dest!: Delete_data)
qed

lemma example_Put_7_8:
  "Put demo_Encode example_wal [7] [8] example_disk
     = (None,
        example_wal\<lparr>log := example_log\<lparr>file := Some \<lparr>path = ''wal'', pos = 16\<rparr>\<rparr>,
                    data := (data example_wal)([7] \<mapsto> [8])\<rparr>,
        example_disk(''wal'' \<mapsto> frame [0, 1, 7, 8]))"
proof -
  have a: "Append (log example_wal) [0, 1, 7, 8] example_disk
      = (Inr 0, example_log\<lparr>file := Some \<lparr>path = ''wal'', pos = 16\<rparr>\<rparr>,
         example_disk(''wal'' \<mapsto> frame [0, 1, 7, 8]))"
    by (simp add: example_wal_def Append_open[OF example_log_file] example_disk_contents
        Let_def maxAlloc_def max_file_size_def)
  show ?thesis by (simp add: Put_cases demo_Encode_PUT_7 a)
qed

lemma example_history_run:
  "run demo_Encode example_history example_wal example_disk
     = ([None, None, Some ErrInvalid],
        example_wal\<lparr>log := example_log\<lparr>file := None\<rparr>, data := (data example_wal)([7] \<mapsto> [8])\<rparr>,
        example_disk(''wal'' \<mapsto> frame [0, 1, 7, 8]))"
  by (simp add: example_history_def example_Put_7_8 Close_def file_Close_def
      Delete_cases demo_Encode_DELETE_7 Append_None)

lemma contents_update_path [simp]: "contents (d(p \<mapsto> bs)) \<lparr>path = p, pos = n\<rparr> = bs"
  by (simp add: contents_def)

lemma PutUint64_0: "PutUint64 0 = [0, 0, 0, 0, 0, 0, 0, 0]"
  by (simp add: PutUint64_def)


lemma PutUint32_0: "PutUint32 0 = [0, 0, 0, 0]"
  by (simp add: PutUint32_def)

lemma Uint32_0000: "Uint32 [0, 0, 0, 0] = 0"
  by (simp add: Uint32_def)


lemma frame_Nil: "frame [] = [0, 0, 0, 0, 0, 0, 0, 0, 0, 0, 0, 0]"
  by (simp add: frame_def PutUint64_0 PutUint32_0)

lemma example_Append_Nil:
  "Append example_log [] example_disk
     = (Inr 0, example_log\<lparr>file := Some \<lparr>path = ''wal'', pos = 12\<rparr>\<rparr>,
        example_disk(''wal'' \<mapsto> frame []))"
  by (simp add: Append_open[OF example_log_file] example_disk_contents Let_def maxAlloc_def
      max_file_size_def)

lemma example_Append_Nil_Nil:
  "Append (example_log\<lparr>file := Some \<lparr>path = ''wal'', pos = 12\<rparr>\<rparr>) []
       (example_disk(''wal'' \<mapsto> frame []))
     = (Inr 12, example_log\<lparr>file := Some \<lparr>path = ''wal'', pos = 24\<rparr>\<rparr>,
        example_disk(''wal'' \<mapsto> frame [] @ frame []))"
proof -
  have f: "file (example_log\<lparr>file := Some \<lparr>path = ''wal'', pos = 12\<rparr>\<rparr>)
      = Some \<lparr>path = ''wal'', pos = 12\<rparr>" by simp
  show ?thesis
    by (simp add: Append_open[OF f] Let_def maxAlloc_def max_file_size_def)
qed

lemma ReadFull_Inl_cases:
  "ReadFull (Some f) n d = (Inl e, fp') \<Longrightarrow> e = EOF \<or> e = ErrUnexpectedEOF"
  by (auto simp: ReadFull_def Let_def split: if_splits)

lemma ReadFull_Some_D:
  "ReadFull (Some f) n d = (res, fp') \<Longrightarrow> \<exists>f'. fp' = Some f'"
  by (auto simp: ReadFull_def Let_def split: if_splits)

lemma binary_Read_uint64_Inl_cases:
  "binary_Read_uint64 (Some f) d = (Inl e, fp') \<Longrightarrow> e = EOF \<or> e = ErrUnexpectedEOF"
  by (auto simp: binary_Read_uint64_def split: prod.splits sum.splits dest: ReadFull_Inl_cases)

lemma binary_Read_uint32_Inl_cases:
  "binary_Read_uint32 (Some f) d = (Inl e, fp') \<Longrightarrow> e = EOF \<or> e = ErrUnexpectedEOF"
  by (auto simp: binary_Read_uint32_def split: prod.splits sum.splits dest: ReadFull_Inl_cases)

lemma binary_Read_uint64_Some_D:
  "binary_Read_uint64 (Some f) d = (res, fp') \<Longrightarrow> \<exists>f'. fp' = Some f'"
  by (auto simp: binary_Read_uint64_def split: prod.splits sum.splits dest: ReadFull_Some_D)

lemma Read_Inl_cases:
  assumes op: "file fl = Some f" and rd: "fst (Read fl off d) = Inl e"
  shows "e \<in> {EOF, ErrUnexpectedEOF, PathError_EINVAL, ErrCorruption, Panic_makeslice}"
proof (cases "sint off < 0")
  case True
  with op rd show ?thesis by (simp add: Read_negative)
next
  case False
  let ?f1 = "f\<lparr>pos := nat (sint off)\<rparr>"
  have s1: "Seek (file fl) (sint off) SeekStart d = (Inr (sint off), Some ?f1)"
    using op False by (simp add: Seek_start_Some)
  obtain r2 fp2 where b2: "binary_Read_uint64 (Some ?f1) d = (r2, fp2)"
    by (cases "binary_Read_uint64 (Some ?f1) d")
  show ?thesis
  proof (cases r2)
    case (Inl e2)
    with rd s1 b2 have "e = e2" by (simp add: Read_def)
    with binary_Read_uint64_Inl_cases[OF b2[unfolded Inl]] show ?thesis by auto
  next
    case (Inr v)
    from binary_Read_uint64_Some_D[OF b2] obtain f2 where f2: "fp2 = Some f2" by blast
    show ?thesis
    proof (cases "unat v > maxAlloc")
      case True
      with rd s1 b2 Inr show ?thesis by (simp add: Read_def make_bytes_def)
    next
      case small: False
      obtain r3 fp3 where b3: "ReadFull (Some f2) (unat v) d = (r3, fp3)"
        by (cases "ReadFull (Some f2) (unat v) d")
      show ?thesis
      proof (cases r3)
        case (Inl e3)
        with rd s1 b2 Inr f2 small b3 have "e = e3" by (simp add: Read_def make_bytes_def)
        with ReadFull_Inl_cases[OF b3[unfolded Inl]] show ?thesis by auto
      next
        case rec: (Inr bs)
        from ReadFull_Some_D[OF b3] obtain f3 where f3: "fp3 = Some f3" by blast
        obtain r4 fp4 where b4: "binary_Read_uint32 (Some f3) d = (r4, fp4)"
          by (cases "binary_Read_uint32 (Some f3) d")
        show ?thesis
        proof (cases r4)
          case (Inl e4)
          with rd s1 b2 Inr f2 small b3 rec f3 b4 have "e = e4"
            by (simp add: Read_def make_bytes_def)
          with binary_Read_uint32_Inl_cases[OF b4[unfolded Inl]] show ?thesis by auto
        next
          case ck: (Inr c)
          with rd s1 b2 Inr f2 small b3 rec f3 b4 show ?thesis
            by (simp add: Read_def make_bytes_def split: if_splits)
        qed
      qed
    qed
  qed
qed

lemma readLoop_Read_Inl:
  "fst (Read lg off d) = Inl e \<Longrightarrow>
     fst (readLoop dec lg d off m) = (if e = EOF then Inr m else Inl e)"
  by (subst readLoop.simps) (auto split: prod.splits sum.splits)


lemma Uint32_inj: "length a = 4 \<Longrightarrow> length b = 4 \<Longrightarrow> Uint32 a = Uint32 b \<Longrightarrow> a = b"
  by (metis PutUint32_Uint32)

lemma ChecksumIEEE_update:
  assumes "k < length r" "x \<noteq> r ! k"
  shows "ChecksumIEEE (r[k := x]) \<noteq> ChecksumIEEE r"
proof -
  have "r = take k r @ r ! k # drop (Suc k) r"
    using assms(1) by (simp add: id_take_nth_drop)
  moreover have "r[k := x] = take k r @ x # drop (Suc k) r"
    using assms(1) by (simp add: upd_conv_take_nth_drop)
  ultimately show ?thesis
    using ChecksumIEEE_changed_byte[OF assms(2), of "take k r" "drop (Suc k) r"] by metis
qed

lemma readLoop_Read_Inr:
  "Read lg off d = (Inr (r, nxt), lg') \<Longrightarrow>
     readLoop dec lg d off m =
       (case dec r of
          Inl err \<Rightarrow> (Inl err, lg')
        | Inr op \<Rightarrow> readLoop dec lg' d nxt (apply_op op m))"
  by (subst readLoop.simps) simp

lemma of_nat_frame_offset:
  "(of_nat (length (pre @ frame p)) :: uint64) = of_nat (length pre) + 8 + of_nat (length p) + 4"
  by simp

lemma readLoop_frames:
  assumes "file lg = Some f"
    and "contents d f = pre @ concat (map frame ps)"
    and "length (contents d f) \<le> max_file_size"
    and "\<forall>p \<in> set ps. length p \<le> maxAlloc"
  shows "fst (readLoop dec lg d (of_nat (length pre)) m) = replay dec ps m"
  using assms
proof (induction ps arbitrary: lg f pre m)
  case Nil
  let ?off = "of_nat (length pre) :: uint64"
  have lt: "length pre < 2 ^ 63" using Nil.prems(2,3) by (simp add: max_file_size_def)
  have s: "0 \<le> sint ?off" using lt by (simp add: sint_of_nat64)
  have u: "unat ?off = length pre" using lt by (simp add: unat_of_nat64)
  have "length (contents d f) \<le> unat ?off" using Nil.prems(2) u by simp
  from Read_past_end[OF Nil.prems(1) s this]
  have "fst (Read lg ?off d) = Inl EOF" by simp
  then show ?case by (simp add: readLoop_Read_Inl)
next
  case (Cons p ps)
  let ?off = "of_nat (length pre) :: uint64"
  let ?f' = "f\<lparr>pos := unat ?off + 8 + length p + 4\<rparr>"
  let ?lg' = "lg\<lparr>file := Some ?f'\<rparr>"
  have lt: "length pre < 2 ^ 63" using Cons.prems(2,3) by (simp add: max_file_size_def)
  have s: "0 \<le> sint ?off" using lt by (simp add: sint_of_nat64)
  have u: "unat ?off = length pre" using lt by (simp add: unat_of_nat64)
  have le: "length p \<le> maxAlloc" using Cons.prems(4) by simp
  have dr: "drop (unat ?off) (contents d f)
      = PutUint64 (of_nat (length p)) @ p @ PutUint32 (ChecksumIEEE p) @ concat (map frame ps)"
    by (simp add: u Cons.prems(2) frame_def[of p])
  have l4: "length (PutUint32 (ChecksumIEEE p)) = 4" by simp
  from Read_framed[OF Cons.prems(1) s dr le l4]
  have rd: "Read lg ?off d = (Inr (p, ?off + 8 + of_nat (length p) + 4), ?lg')" by simp
  show ?case
  proof (cases "dec p")
    case (Inl err)
    then show ?thesis by (simp add: readLoop_Read_Inr[OF rd])
  next
    case (Inr op)
    have f': "file ?lg' = Some ?f'" by simp
    have c': "contents d ?f' = (pre @ frame p) @ concat (map frame ps)"
      using Cons.prems(2) by simp
    have m': "length (contents d ?f') \<le> max_file_size" using Cons.prems(3) by simp
    have a': "\<forall>q \<in> set ps. length q \<le> maxAlloc" using Cons.prems(4) by simp
    from Cons.IH[OF f' c' m' a', of "apply_op op m"]
    have "fst (readLoop dec ?lg' d (?off + 8 + of_nat (length p) + 4) (apply_op op m))
        = replay dec ps (apply_op op m)"
      by (simp only: of_nat_frame_offset)
    then show ?thesis by (simp add: readLoop_Read_Inr[OF rd] Inr)
  qed
qed

lemma example_Read_single:
  assumes "length p \<le> maxAlloc"
  shows "Read example_log 0 (example_disk(''wal'' \<mapsto> frame p))
    = (Inr (p, 8 + of_nat (length p) + 4),
       example_log\<lparr>file := Some \<lparr>path = ''wal'', pos = 8 + length p + 4\<rparr>\<rparr>)"
proof -
  let ?d = "example_disk(''wal'' \<mapsto> frame p)"
  have s: "0 \<le> sint (0 :: uint64)" by simp
  have dr: "drop (unat (0 :: uint64)) (contents ?d \<lparr>path = ''wal'', pos = 0\<rparr>)
      = PutUint64 (of_nat (length p)) @ p @ PutUint32 (ChecksumIEEE p) @ []"
    by (simp add: frame_def)
  have l4: "length (PutUint32 (ChecksumIEEE p)) = 4" by simp
  from Read_framed[OF example_log_file s dr assms l4] show ?thesis
    by (simp add: example_log_def)
qed

lemma replay_append:
  "replay dec (ps @ qs) m =
     (case replay dec ps m of Inl err \<Rightarrow> Inl err | Inr m' \<Rightarrow> replay dec qs m')"
  by (induction ps arbitrary: m) (auto split: sum.splits)

lemma Append_Inr_open:
  assumes op: "file fl = Some f" and a: "Append fl p d = (Inr off, fl', d')"
  shows "8 + length p + 4 \<le> maxAlloc
    \<and> length (contents d f) + (8 + length p + 4) \<le> max_file_size
    \<and> fl' = fl\<lparr>file := Some (f\<lparr>pos := length (contents d f) + (8 + length p + 4)\<rparr>)\<rparr>
    \<and> d' = d(path f \<mapsto> contents d f @ frame p)"
  using a unfolding Append_open[OF op] Let_def
  by (auto split: if_splits)

lemma exec_success_step:
  assumes codec: "\<forall>op p. enc op = Inr p \<longrightarrow> dec p = Inr op"
    and op: "file (log wal) = Some f"
    and c: "c \<noteq> CmdCloseLog"
    and ex: "exec enc c wal d = (None, wal', d')"
  shows "\<exists>p w. dec p = Inr w \<and> apply_op w (data wal) = apply_command c (data wal)
    \<and> length p \<le> maxAlloc
    \<and> length (contents d f) + (8 + length p + 4) \<le> max_file_size
    \<and> file (log wal') = Some (f\<lparr>pos := length (contents d f) + (8 + length p + 4)\<rparr>)
    \<and> d' = d(path f \<mapsto> contents d f @ frame p)
    \<and> data wal' = apply_command c (data wal)"
proof (cases c)
  case (CmdPut key val)
  let ?w = "\<lparr>WriteOperationType = PUT, Key = key, Value = val\<rparr>"
  from ex CmdPut obtain p where e: "enc ?w = Inr p"
    by (auto simp: Put_cases split: sum.splits)
  from ex CmdPut e obtain off lg where a: "Append (log wal) p d = (Inr off, lg, d')"
    and w: "wal' = wal\<lparr>log := lg, data := (data wal)(key \<mapsto> val)\<rparr>"
    by (auto simp: Put_cases split: sum.splits prod.splits)
  from Append_Inr_open[OF op a] codec e w CmdPut show ?thesis
    by (intro exI[of _ p] exI[of _ ?w]) (simp add: apply_op_def)
next
  case (CmdDelete key)
  let ?w = "\<lparr>WriteOperationType = DELETE, Key = key, Value = []\<rparr>"
  from ex CmdDelete obtain p where e: "enc ?w = Inr p"
    by (auto simp: Delete_cases split: sum.splits)
  from ex CmdDelete e obtain off lg where a: "Append (log wal) p d = (Inr off, lg, d')"
    and w: "wal' = wal\<lparr>log := lg, data := (data wal)(key := None)\<rparr>"
    by (auto simp: Delete_cases split: sum.splits prod.splits)
  from Append_Inr_open[OF op a] codec e w CmdDelete show ?thesis
    by (intro exI[of _ p] exI[of _ ?w]) (simp add: apply_op_def PUT_def DELETE_def)
next
  case CmdCloseLog
  with c show ?thesis by simp
qed

lemma run_all_success:
  assumes codec: "\<forall>op p. enc op = Inr p \<longrightarrow> dec p = Inr op"
    and "file (log wal) = Some f"
    and "d (path f) = Some (concat (map frame ps0))"
    and "length (concat (map frame ps0)) \<le> max_file_size"
    and "\<forall>p \<in> set ps0. length p \<le> maxAlloc"
    and "replay dec ps0 Map.empty = Inr (data wal)"
    and "run enc cs wal d = (errs, wal', d')"
    and "CmdCloseLog \<notin> set cs"
    and "\<forall>e \<in> set errs. e = None"
  shows "\<exists>f' ps. file (log wal') = Some f' \<and> path f' = path f
    \<and> d' (path f) = Some (concat (map frame ps))
    \<and> length (concat (map frame ps)) \<le> max_file_size
    \<and> (\<forall>p \<in> set ps. length p \<le> maxAlloc)
    \<and> replay dec ps Map.empty = Inr (data wal')
    \<and> data wal' = foldl (\<lambda>m c. apply_command c m) (data wal) cs"
  using assms(2-)
proof (induction cs arbitrary: wal d f ps0 errs wal' d')
  case Nil
  then show ?case by auto
next
  case (Cons c cs)
  obtain e wal1 d1 where ex: "exec enc c wal d = (e, wal1, d1)" by (cases "exec enc c wal d")
  obtain errs1 wal2 d2 where rn: "run enc cs wal1 d1 = (errs1, wal2, d2)"
    by (cases "run enc cs wal1 d1")
  from Cons.prems(6) ex rn have eq: "errs = e # errs1" "wal' = wal2" "d' = d2" by auto
  from Cons.prems(8) eq have e: "e = None" and rest: "\<forall>e \<in> set errs1. e = None" by auto
  from Cons.prems(7) have c: "c \<noteq> CmdCloseLog" and cs: "CmdCloseLog \<notin> set cs" by auto
  have cont: "contents d f = concat (map frame ps0)"
    using Cons.prems(2) by (simp add: contents_def)
  from exec_success_step[OF codec Cons.prems(1) c ex[unfolded e]] obtain p w
    where dp: "dec p = Inr w" and ap: "apply_op w (data wal) = apply_command c (data wal)"
      and lp: "length p \<le> maxAlloc"
      and room: "length (contents d f) + (8 + length p + 4) \<le> max_file_size"
      and f1: "file (log wal1) = Some (f\<lparr>pos := length (contents d f) + (8 + length p + 4)\<rparr>)"
      and d1: "d1 = d(path f \<mapsto> contents d f @ frame p)"
      and m1: "data wal1 = apply_command c (data wal)" by blast
  let ?f1 = "f\<lparr>pos := length (contents d f) + (8 + length p + 4)\<rparr>"
  have i2: "d1 (path ?f1) = Some (concat (map frame (ps0 @ [p])))"
    by (simp add: d1 cont)
  have i3: "length (concat (map frame (ps0 @ [p]))) \<le> max_file_size"
    using room by (simp add: cont)
  have i4: "\<forall>q \<in> set (ps0 @ [p]). length q \<le> maxAlloc"
    using Cons.prems(4) lp by auto
  have i5: "replay dec (ps0 @ [p]) Map.empty = Inr (data wal1)"
    by (simp add: replay_append Cons.prems(5) dp ap m1)
  from Cons.IH[OF f1 i2 i3 i4 i5 rn cs rest] obtain f' ps
    where "file (log wal2) = Some f'" "path f' = path ?f1"
      "d2 (path ?f1) = Some (concat (map frame ps))"
      "length (concat (map frame ps)) \<le> max_file_size"
      "\<forall>p \<in> set ps. length p \<le> maxAlloc"
      "replay dec ps Map.empty = Inr (data wal2)"
      "data wal2 = foldl (\<lambda>m c. apply_command c m) (data wal1) cs" by blast
  then show ?case using eq m1 by auto
qed

lemma OpenFile_existing:
  "p \<noteq> [] \<Longrightarrow> d p = Some bs \<Longrightarrow> OpenFile p d = (Inr \<lparr>path = p, pos = 0\<rparr>, d)"
  by (simp add: OpenFile_def)

lemma NewWriteAheadLog_frames:
  assumes p: "p \<noteq> []"
    and d: "d p = Some (concat (map frame ps))"
    and len: "length (concat (map frame ps)) \<le> max_file_size"
    and sz: "\<forall>q \<in> set ps. length q \<le> maxAlloc"
    and rp: "replay dec ps Map.empty = Inr m"
  shows "\<exists>wal'. NewWriteAheadLog dec p d = (Inr wal', d) \<and> data wal' = m"
proof -
  let ?f = "\<lparr>path = p, pos = 0\<rparr>"
  let ?lg = "\<lparr>file = Some ?f, buffer = []\<rparr>"
  have nf: "NewFileLog p d = (Inr ?lg, d)"
    using OpenFile_existing[of p d] p d by (simp add: NewFileLog_def)
  have f: "file ?lg = Some ?f" by simp
  have c: "contents d ?f = [] @ concat (map frame ps)" by (simp add: contents_def d)
  have l: "length (contents d ?f) \<le> max_file_size" using len by (simp add: contents_def d)
  from readLoop_frames[OF f c l sz, of dec Map.empty]
  have r: "fst (readLoop dec ?lg d 0 Map.empty) = Inr m" by (simp add: rp)
  obtain res lg' where rl: "readLoop dec ?lg d 0 Map.empty = (res, lg')"
    by (cases "readLoop dec ?lg d 0 Map.empty")
  with r have res: "res = Inr m" by simp
  have "NewWriteAheadLog dec p d = (Inr \<lparr>log = lg', data = m\<rparr>, d)"
    by (simp add: NewWriteAheadLog_def nf NewWriteAheadLogWithFileLog_def readAllLogEntries_def
        rl res)
  then show ?thesis by simp
qed

lemma NewWriteAheadLog_fresh:
  assumes p: "p \<noteq> []" and fresh: "d0 p = None \<or> d0 p = Some []"
  shows "NewWriteAheadLog dec p d0
    = (Inr \<lparr>log = \<lparr>file = Some \<lparr>path = p, pos = 0\<rparr>, buffer = []\<rparr>, data = Map.empty\<rparr>,
       d0(p \<mapsto> []))"
proof -
  let ?f = "\<lparr>path = p, pos = 0\<rparr>"
  let ?lg = "\<lparr>file = Some ?f, buffer = []\<rparr>"
  let ?d1 = "d0(p \<mapsto> [])"
  have "(case d0 p of None \<Rightarrow> d0(p \<mapsto> []) | Some bs \<Rightarrow> d0) = ?d1"
    using fresh by (auto simp: fun_upd_idem)
  then have nf: "NewFileLog p d0 = (Inr ?lg, ?d1)"
    using p by (simp add: NewFileLog_def OpenFile_def)
  have f: "file ?lg = Some ?f" by simp
  have s: "0 \<le> sint (0 :: uint64)" by simp
  have "length (contents ?d1 ?f) \<le> unat (0 :: uint64)" by (simp add: contents_def)
  from Read_past_end[OF f s this]
  have rd: "Read ?lg 0 ?d1 = (Inl EOF, ?lg)" by simp
  have "readLoop dec ?lg ?d1 0 Map.empty = (Inr Map.empty, ?lg)"
    by (subst readLoop.simps) (simp add: rd)
  then show ?thesis
    by (simp add: NewWriteAheadLog_def nf NewWriteAheadLogWithFileLog_def readAllLogEntries_def)
qed

lemma NewWriteAheadLog_empty_path: "fst (NewWriteAheadLog dec [] d) = Inl PathError_ENOENT"
  by (simp add: NewWriteAheadLog_def NewFileLog_def OpenFile_def)

lemma demo_codec: "\<forall>op p. demo_Encode op = Inr p \<longrightarrow> demo_Decode p = Inr op"
proof (intro allI impI)
  fix op p assume e: "demo_Encode op = Inr p"
  let ?t = "WriteOperationType op"
  from e have t: "0 \<le> ?t" "?t < 256" and k: "length (Key op) < 256"
    and p: "p = word_of_int ?t # of_nat (length (Key op)) # Key op @ Value op"
    by (auto simp: demo_Encode_def split: if_splits)
  have ut: "uint (word_of_int ?t :: byte) = ?t"
    using t by (simp add: uint_word_of_int take_bit_int_eq_self)
  have uk: "unat (of_nat (length (Key op)) :: byte) = length (Key op)"
    using k by (simp add: unat_of_nat)
  show "demo_Decode p = Inr op"
    by (simp add: demo_Decode_def p ut uk)
qed

lemma Append_eval:
  "Append \<lparr>file = Some f, buffer = b\<rparr> r d =
    (let bs = contents d f in
     if maxAlloc < 8 + length r + 4
       then (Inl Panic_ErrTooLarge, \<lparr>file = Some (f\<lparr>pos := length bs\<rparr>), buffer = b\<rparr>, d)
     else if length bs + (8 + length r + 4) \<le> max_file_size
       then (Inr (of_nat (length bs)),
             \<lparr>file = Some (f\<lparr>pos := length bs + (8 + length r + 4)\<rparr>), buffer = b\<rparr>,
             d(path f \<mapsto> bs @ frame r))
       else (Inl PathError_EFBIG,
             \<lparr>file = Some (f\<lparr>pos := length bs + length (take (max_file_size - length bs) (frame r))\<rparr>),
              buffer = b\<rparr>,
             (if take (max_file_size - length bs) (frame r) = [] then d
              else d(path f \<mapsto> bs @ take (max_file_size - length bs) (frame r)))))"
proof -
  have "file \<lparr>file = Some f, buffer = b\<rparr> = Some f" by simp
  from Append_open[OF this, of r d] show ?thesis by (simp add: Let_def)
qed

lemma K_history_errors:
  "fst (run demo_Encode K_history example_wal example_disk) = [None, None, None, None]"
  by (simp add: K_history_def example_wal_def example_log_def example_disk_def Put_cases
      Delete_cases demo_Encode_def PUT_def DELETE_def Append_eval Let_def maxAlloc_def
      max_file_size_def)

subsection \<open>Read at the end of the file, at a torn length and at a length too large\<close>




lemma Read_length_too_large:
  assumes fl: "file fl = Some f"
    and off: "0 \<le> sint off"
    and bs: "drop (unat off) (contents d f) = PutUint64 v @ rest"
    and big: "maxAlloc < unat v"
  shows "fst (Read fl off d) = Inl Panic_makeslice"
proof -
  let ?f1 = "f\<lparr>pos := unat off\<rparr>"
  have s1: "Seek (file fl) (sint off) SeekStart d = (Inr (sint off), Some ?f1)"
    using fl off by (simp add: Seek_start_Some sint_nonneg_unat)
  have "drop (pos ?f1) (contents d ?f1) = PutUint64 v @ rest" using bs by simp
  from binary_Read_uint64_avail[OF this]
  have s2: "binary_Read_uint64 (Some ?f1) d = (Inr v, Some (f\<lparr>pos := unat off + 8\<rparr>))" by simp
  show ?thesis using big by (simp add: Read_def s1 s2 make_bytes_def)
qed

lemma ChecksumIEEE_hello_world: "ChecksumIEEE hello_world = 0xFFAB723A"
  by (simp add: hello_world_def ChecksumIEEE_def crc_update_unfold crc_bit_def IEEE_def)

lemma frame_hello_world:
  "frame hello_world = [0, 0, 0, 0, 0, 0, 0, 12] @ hello_world @ [255, 171, 114, 58]"
  by (simp add: frame_def ChecksumIEEE_hello_world) (simp add: hello_world_def PutUint64_def PutUint32_def)

lemma PutUint64_14: "PutUint64 14 = [0, 0, 0, 0, 0, 0, 0, 14]"
  by (simp add: PutUint64_def)

lemma PutUint64_58_shifted: "PutUint64 0x3A00000000000000 = [58, 0, 0, 0, 0, 0, 0, 0]"
  by (simp add: PutUint64_def)

lemma example_Append_hello:
  "Append example_log hello_world example_disk
     = (Inr 0, example_log\<lparr>file := Some \<lparr>path = ''wal'', pos = 24\<rparr>\<rparr>,
        example_disk(''wal'' \<mapsto> frame hello_world))"
  by (simp add: Append_open[OF example_log_file] example_disk_contents Let_def maxAlloc_def
      max_file_size_def hello_world_def)

lemma example_Append_hello_goodbye:
  "Append (example_log\<lparr>file := Some \<lparr>path = ''wal'', pos = 24\<rparr>\<rparr>) goodbye_world
       (example_disk(''wal'' \<mapsto> frame hello_world))
     = (Inr 24, example_log\<lparr>file := Some \<lparr>path = ''wal'', pos = 50\<rparr>\<rparr>,
        example_disk(''wal'' \<mapsto> frame hello_world @ frame goodbye_world))"
proof -
  have f: "file (example_log\<lparr>file := Some \<lparr>path = ''wal'', pos = 24\<rparr>\<rparr>)
      = Some \<lparr>path = ''wal'', pos = 24\<rparr>" by simp
  show ?thesis
    by (simp add: Append_open[OF f] Let_def maxAlloc_def max_file_size_def)
      (simp add: hello_world_def goodbye_world_def)
qed

section \<open>The claims\<close>

text \<open>
  C1. A store is constructed on a path whose file is absent or empty, and any finite
  history of \<^verbatim>\<open>Put\<close> and \<^verbatim>\<open>Delete\<close> calls runs on it, each returning nil. Then the log
  closes without error, constructing a store again on the same path succeeds and leaves
  the file as it is, and the new store answers every \<^verbatim>\<open>Get\<close> as the old one did: its
  map is the calls of the history applied in their order to the empty map, a later call
  on a key overriding the earlier ones. The gob encoder and decoder are parameters,
  bound by their contract: what the encoder produced decodes to the operation encoded.
\<close>

theorem reopen_reconstructs_store:
  assumes codec: "\<forall>op p. enc op = Inr p \<longrightarrow> dec p = Inr op"
    and fresh: "d0 p = None \<or> d0 p = Some []"
    and new: "NewWriteAheadLog dec p d0 = (Inr wal0, d1)"
    and rn: "run enc cs wal0 d1 = (errs, wal, d2)"
    and writes: "CmdCloseLog \<notin> set cs"
    and ok: "\<forall>e \<in> set errs. e = None"
  shows "fst (Close (log wal)) = None
    \<and> (\<exists>wal'. NewWriteAheadLog dec p d2 = (Inr wal', d2)
          \<and> (\<forall>k. Get wal' k = Get wal k)
          \<and> data wal' = foldl (\<lambda>m c. apply_command c m) Map.empty cs)"
proof -
  have p: "p \<noteq> []"
    using new NewWriteAheadLog_empty_path[of dec d0] by auto
  let ?f = "\<lparr>path = p, pos = 0\<rparr>"
  from new NewWriteAheadLog_fresh[of p d0 dec] p fresh
  have w0: "wal0 = \<lparr>log = \<lparr>file = Some ?f, buffer = []\<rparr>, data = Map.empty\<rparr>"
    and d1: "d1 = d0(p \<mapsto> [])" by simp_all
  have i1: "file (log wal0) = Some ?f" by (simp add: w0)
  have i2: "d1 (path ?f) = Some (concat (map frame []))" by (simp add: d1)
  have i3: "length (concat (map frame [])) \<le> max_file_size" by simp
  have i4: "\<forall>q \<in> set ([] :: bytes list). length q \<le> maxAlloc" by simp
  have i5: "replay dec [] Map.empty = Inr (data wal0)" by (simp add: w0)
  from run_all_success[OF codec i1 i2 i3 i4 i5 rn writes ok] obtain f' ps
    where d2: "d2 p = Some (concat (map frame ps))"
      and len: "length (concat (map frame ps)) \<le> max_file_size"
      and sz: "\<forall>q \<in> set ps. length q \<le> maxAlloc"
      and rp: "replay dec ps Map.empty = Inr (data wal)"
      and fo: "data wal = foldl (\<lambda>m c. apply_command c m) (data wal0) cs" by auto
  from NewWriteAheadLog_frames[of p d2 ps dec "data wal"] p d2 len sz rp obtain wal'
    where n2: "NewWriteAheadLog dec p d2 = (Inr wal', d2)" and dw: "data wal' = data wal" by blast
  have g: "\<forall>k. Get wal' k = Get wal k" by (simp add: Get_def dw)
  have c: "fst (Close (log wal)) = None"
    by (simp add: Close_def file_Close_def split: option.splits)
  from n2 g c dw fo show ?thesis by (simp add: w0)
qed

theorem reopen_reconstructs_store_witness:
  "fst (run demo_Encode K_history example_wal example_disk) = [None, None, None, None]
   \<and> (\<exists>wal'. fst (NewWriteAheadLog demo_Decode ''wal''
           (snd (snd (run demo_Encode K_history example_wal example_disk)))) = Inr wal'
         \<and> Get wal' [75] = ([67], None))"
proof -
  let ?r = "run demo_Encode K_history example_wal example_disk"
  have fresh: "Map.empty ''wal'' = None \<or> Map.empty ''wal'' = Some ([] :: bytes)" by simp
  have new: "NewWriteAheadLog demo_Decode ''wal'' Map.empty = (Inr example_wal, example_disk)"
    using NewWriteAheadLog_fresh[of "''wal''" Map.empty demo_Decode]
    by (simp add: example_wal_def example_log_def example_disk_def)
  have rn: "?r = (fst ?r, fst (snd ?r), snd (snd ?r))" by simp
  have writes: "CmdCloseLog \<notin> set K_history" by (simp add: K_history_def)
  have ok: "\<forall>e \<in> set (fst ?r). e = None" by (simp add: K_history_errors)
  from reopen_reconstructs_store[OF demo_codec fresh new rn writes ok] obtain wal'
    where n: "NewWriteAheadLog demo_Decode ''wal'' (snd (snd ?r)) = (Inr wal', snd (snd ?r))"
      and dw: "data wal' = foldl (\<lambda>m c. apply_command c m) Map.empty K_history" by blast
  have "Get wal' [75] = ([67], None)"
    by (simp add: Get_def dw K_history_def)
  with n show ?thesis by (simp add: K_history_errors)
qed

text \<open>
  C2. After any history of \<^verbatim>\<open>Put\<close>, \<^verbatim>\<open>Delete\<close> and closing of the log, run on any
  store, \<^verbatim>\<open>Get\<close> returns a nil error; its value is the value of the last successful
  \<^verbatim>\<open>Put\<close> of the key when no successful \<^verbatim>\<open>Put\<close> or \<^verbatim>\<open>Delete\<close> of the key came after
  it, the empty result when the last successful write of the key was a \<^verbatim>\<open>Delete\<close>, and
  what the store held at the start when the history has no successful write of the
  key: the same empty result when the key was not in the store.
\<close>

theorem Get_latest_write:
  assumes r: "run enc cs wal0 d0 = (errs, wal, d)"
  shows "snd (Get wal k) = None
    \<and> (zip cs errs = pre @ (CmdPut k v, None) # post \<and> (\<forall>x \<in> set post. \<not> wrote k x)
         \<longrightarrow> fst (Get wal k) = v)
    \<and> (zip cs errs = pre @ (CmdDelete k, None) # post \<and> (\<forall>x \<in> set post. \<not> wrote k x)
         \<longrightarrow> fst (Get wal k) = [])
    \<and> ((\<forall>x \<in> set (zip cs errs). \<not> wrote k x) \<longrightarrow> Get wal k = Get wal0 k)
    \<and> ((\<forall>x \<in> set (zip cs errs). \<not> wrote k x) \<and> data wal0 k = None \<longrightarrow> fst (Get wal k) = [])"
proof -
  have "snd (Get wal k) = None" by (simp add: Get_def)
  moreover have "fst (Get wal k) = v"
    if "zip cs errs = pre @ (CmdPut k v, None) # post" "\<forall>x \<in> set post. \<not> wrote k x"
    using run_data_after_write(1)[OF r that] by (simp add: Get_def)
  moreover have "fst (Get wal k) = []"
    if "zip cs errs = pre @ (CmdDelete k, None) # post" "\<forall>x \<in> set post. \<not> wrote k x"
    using run_data_after_write(2)[OF r that] by (simp add: Get_def)
  moreover have "Get wal k = Get wal0 k" if "\<forall>x \<in> set (zip cs errs). \<not> wrote k x"
    using run_data_untouched[OF r that] by (simp add: Get_def)
  moreover have "fst (Get wal k) = []"
    if "\<forall>x \<in> set (zip cs errs). \<not> wrote k x" "data wal0 k = None"
    using run_data_untouched[OF r that(1)] that(2) by (simp add: Get_def)
  ultimately show ?thesis by blast
qed

theorem Get_latest_write_witness:
  "fst (run demo_Encode example_history example_wal example_disk) = [None, None, Some ErrInvalid]
   \<and> Get (fst (snd (run demo_Encode example_history example_wal example_disk))) [7] = ([8], None)
   \<and> Get (fst (snd (run demo_Encode example_history example_wal example_disk))) [9] = ([], None)"
proof -
  let ?wal = "fst (snd (run demo_Encode example_history example_wal example_disk))"
  let ?post = "[(CmdCloseLog, None), (CmdDelete [7], Some ErrInvalid)]"
  have r: "run demo_Encode example_history example_wal example_disk
      = ([None, None, Some ErrInvalid], ?wal, snd (snd (run demo_Encode example_history example_wal example_disk)))"
    by (simp add: example_history_run)
  have z: "zip example_history [None, None, Some ErrInvalid] = [] @ (CmdPut [7] [8], None) # ?post"
    by (simp add: example_history_def)
  have p: "\<forall>x \<in> set ?post. \<not> wrote [7] x" by simp
  have n: "\<forall>x \<in> set (zip example_history [None, None, Some ErrInvalid]). \<not> wrote [9] x"
    by (simp add: example_history_def)
  have e: "data example_wal [9] = None" by (simp add: example_wal_def)
  from Get_latest_write[OF r, of "[7]" "[]" "[8]" ?post] z p
  have "fst (Get ?wal [7]) = [8]" "snd (Get ?wal [7]) = None" by blast+
  then have g7: "Get ?wal [7] = ([8], None)" by (simp add: prod_eq_iff)
  from Get_latest_write[OF r, of "[9]" "[]" "[]" "[]"] n e
  have "fst (Get ?wal [9]) = []" "snd (Get ?wal [9]) = None" by blast+
  then have g9: "Get ?wal [9] = ([], None)" by (simp add: prod_eq_iff)
  show ?thesis using g7 g9 by (simp add: example_history_run)
qed

text \<open>
  C3. On an open log, for a record that fits a byte slice together with its framing and
  a file that can still grow by the frame, \<^verbatim>\<open>Append\<close> succeeds, returns the length
  the file had before as the offset, grows the file by exactly \<open>8 + len(r) + 4\<close> bytes,
  and \<^verbatim>\<open>Read\<close> at the returned offset gives back exactly the record and the next offset
  \<open>offset + 8 + len(r) + 4\<close>. The contents of the file before the append are arbitrary.
\<close>

theorem Append_then_Read:
  assumes op: "file fl = Some f"
    and slice: "8 + length r + 4 \<le> maxAlloc"
    and room: "length (contents d f) + (8 + length r + 4) \<le> max_file_size"
  shows "\<exists>offset fl' d'.
     Append fl r d = (Inr offset, fl', d')
     \<and> unat offset = file_length fl d
     \<and> file_length fl' d' = file_length fl d + (8 + length r + 4)
     \<and> fst (Read fl' offset d') = Inr (r, offset + 8 + of_nat (length r) + 4)"
proof -
  let ?bs = "contents d f"
  let ?off = "of_nat (length ?bs) :: uint64"
  let ?f' = "f\<lparr>pos := length ?bs + (8 + length r + 4)\<rparr>"
  let ?fl' = "fl\<lparr>file := Some ?f'\<rparr>"
  let ?d' = "d(path f \<mapsto> ?bs @ frame r)"
  have a: "Append fl r d = (Inr ?off, ?fl', ?d')"
    using slice room by (simp add: Append_open[OF op] Let_def)
  have lt: "length ?bs < 2 ^ 63" using room by (simp add: max_file_size_def)
  then have u: "unat ?off = length ?bs" by (simp add: unat_of_nat64)
  have s: "0 \<le> sint ?off" using lt by (simp add: sint_of_nat64)
  have c': "contents ?d' ?f' = ?bs @ frame r"
    by (simp add: contents_def)
  have fr: "drop (unat ?off) (contents ?d' ?f')
      = PutUint64 (of_nat (length r)) @ r @ PutUint32 (ChecksumIEEE r) @ []"
    by (simp add: contents_update_same u frame_def)
  have le: "length r \<le> maxAlloc" using slice by simp
  have "file ?fl' = Some ?f'" by simp
  from Read_framed[OF this s fr le]
  have rd: "fst (Read ?fl' ?off ?d') = Inr (r, ?off + 8 + of_nat (length r) + 4)"
    by simp
  have fl1: "file_length fl d = length ?bs" by (simp add: file_length_def op)
  have fl2: "file_length ?fl' ?d' = length ?bs + (8 + length r + 4)"
    by (simp add: file_length_def contents_update_same)
  show ?thesis using a u rd fl1 fl2 by simp
qed

theorem Append_then_Read_witness:
  "Append example_log [104, 105] example_disk
     = (Inr 0, example_log\<lparr>file := Some \<lparr>path = ''wal'', pos = 14\<rparr>\<rparr>,
        example_disk(''wal'' \<mapsto> frame [104, 105]))
   \<and> fst (Read (example_log\<lparr>file := Some \<lparr>path = ''wal'', pos = 14\<rparr>\<rparr>) 0
        (example_disk(''wal'' \<mapsto> frame [104, 105]))) = Inr ([104, 105], 14)"
proof -
  have f: "file example_log = Some \<lparr>path = ''wal'', pos = 0\<rparr>"
    by (simp add: example_log_def)
  have c: "contents example_disk \<lparr>path = ''wal'', pos = 0\<rparr> = []"
    by (simp add: contents_def example_disk_def)
  have s: "8 + length [104, 105 :: byte] + 4 \<le> maxAlloc"
    by (simp add: maxAlloc_def)
  have r: "length (contents example_disk \<lparr>path = ''wal'', pos = 0\<rparr>) + (8 + length [104, 105 :: byte] + 4) \<le> max_file_size"
    by (simp add: c max_file_size_def)
  have a: "Append example_log [104, 105] example_disk
     = (Inr 0, example_log\<lparr>file := Some \<lparr>path = ''wal'', pos = 14\<rparr>\<rparr>,
        example_disk(''wal'' \<mapsto> frame [104, 105]))"
    using s r by (simp add: Append_open[OF f] c Let_def)
  from Append_then_Read[OF f s r] a show ?thesis by auto
qed

text \<open>
  C4. \<^verbatim>\<open>Read\<close> decodes whatever bytes stand at the offset; the log keeps no record of
  where its records start. \<^verbatim>\<open>TestReadAtInvalidOffsets\<close> expects an error one byte
  behind and one byte ahead of a record start. Evaluated there on two logs. Two empty
  records are appended to the empty log, at the offsets 0 and 12, so that the file is
  24 zero bytes: \<^verbatim>\<open>Read\<close> at offset 1, one byte ahead of the first record start,
  returns the empty record and the next offset 13, and no error. The records
  \<^verbatim>\<open>"hello, world"\<close> and \<^verbatim>\<open>"goodbye, world"\<close> of the test are appended to the empty log,
  at the offsets 0 and 24: \<^verbatim>\<open>Read\<close> at offset 23, one byte behind the second record
  start, takes the last checksum byte 58 and seven zero bytes for the length
  \<open>58 * 2 ^ 56\<close>, and \<^verbatim>\<open>make\<close> panics; no error is returned.
\<close>

theorem Read_beside_record_start:
  "Append example_log [] example_disk
     = (Inr 0, example_log\<lparr>file := Some \<lparr>path = ''wal'', pos = 12\<rparr>\<rparr>,
        example_disk(''wal'' \<mapsto> frame []))
   \<and> Append (example_log\<lparr>file := Some \<lparr>path = ''wal'', pos = 12\<rparr>\<rparr>) []
       (example_disk(''wal'' \<mapsto> frame []))
     = (Inr 12, example_log\<lparr>file := Some \<lparr>path = ''wal'', pos = 24\<rparr>\<rparr>,
        example_disk(''wal'' \<mapsto> frame [] @ frame []))
   \<and> fst (Read (example_log\<lparr>file := Some \<lparr>path = ''wal'', pos = 24\<rparr>\<rparr>) 1
        (example_disk(''wal'' \<mapsto> frame [] @ frame []))) = Inr ([], 13)
   \<and> Append example_log hello_world example_disk
     = (Inr 0, example_log\<lparr>file := Some \<lparr>path = ''wal'', pos = 24\<rparr>\<rparr>,
        example_disk(''wal'' \<mapsto> frame hello_world))
   \<and> Append (example_log\<lparr>file := Some \<lparr>path = ''wal'', pos = 24\<rparr>\<rparr>) goodbye_world
       (example_disk(''wal'' \<mapsto> frame hello_world))
     = (Inr 24, example_log\<lparr>file := Some \<lparr>path = ''wal'', pos = 50\<rparr>\<rparr>,
        example_disk(''wal'' \<mapsto> frame hello_world @ frame goodbye_world))
   \<and> fst (Read (example_log\<lparr>file := Some \<lparr>path = ''wal'', pos = 50\<rparr>\<rparr>) 23
        (example_disk(''wal'' \<mapsto> frame hello_world @ frame goodbye_world))) = Inl Panic_makeslice"
proof -
  let ?fl = "example_log\<lparr>file := Some \<lparr>path = ''wal'', pos = 24\<rparr>\<rparr>"
  let ?d = "example_disk(''wal'' \<mapsto> frame [] @ frame [])"
  have f: "file ?fl = Some \<lparr>path = ''wal'', pos = 24\<rparr>" by simp
  have s: "0 \<le> sint (1 :: uint64)" by simp
  have dr: "drop (unat (1 :: uint64)) (contents ?d \<lparr>path = ''wal'', pos = 24\<rparr>)
      = PutUint64 (of_nat (length ([] :: bytes))) @ [] @ [0, 0, 0, 0] @ [0, 0, 0, 0, 0, 0, 0, 0, 0, 0, 0]"
    by (simp add: frame_Nil PutUint64_0)
  have le: "length ([] :: bytes) \<le> maxAlloc" by simp
  have a: "fst (Read ?fl 1 ?d) = Inr ([], 13)"
    using Read_framed[OF f s dr le] by (simp add: Uint32_0000)
  let ?fl2 = "example_log\<lparr>file := Some \<lparr>path = ''wal'', pos = 50\<rparr>\<rparr>"
  let ?d2 = "example_disk(''wal'' \<mapsto> frame hello_world @ frame goodbye_world)"
  have f2: "file ?fl2 = Some \<lparr>path = ''wal'', pos = 50\<rparr>" by simp
  have s2: "0 \<le> sint (23 :: uint64)" by simp
  have dr2: "drop (unat (23 :: uint64)) (contents ?d2 \<lparr>path = ''wal'', pos = 50\<rparr>)
      = PutUint64 0x3A00000000000000 @ (14 # goodbye_world @ PutUint32 (ChecksumIEEE goodbye_world))"
    by (simp add: frame_hello_world PutUint64_58_shifted)
      (simp add: hello_world_def goodbye_world_def frame_def PutUint64_14)
  have big: "maxAlloc < unat (0x3A00000000000000 :: uint64)" by (simp add: maxAlloc_def)
  have b: "fst (Read ?fl2 23 ?d2) = Inl Panic_makeslice"
    by (rule Read_length_too_large[OF f2 s2 dr2 big])
  from a b show ?thesis
    by (simp add: example_Append_Nil example_Append_Nil_Nil example_Append_hello
        example_Append_hello_goodbye)
qed




text \<open>
  C6. After a successful \<^verbatim>\<open>Close\<close> the log is closed: its file is nil, every later
  \<^verbatim>\<open>Append\<close> and every later \<^verbatim>\<open>Read\<close> fails with the error of the closed state
  (\<^verbatim>\<open>os.ErrInvalid\<close>, returned for the nil file) and leaves the log closed, on whatever
  disk; a second \<^verbatim>\<open>Close\<close> returns nil and changes nothing.
\<close>

theorem Close_closed_state:
  "Close fl = (None, fl') \<Longrightarrow>
     file fl' = None
     \<and> (\<forall>r d. Append fl' r d = (Inl ErrInvalid, fl', d))
     \<and> (\<forall>off d. Read fl' off d = (Inl ErrInvalid, fl'))
     \<and> Close fl' = (None, fl')"
proof -
  assume c: "Close fl = (None, fl')"
  have n: "file fl' = None"
    using c by (auto simp: Close_def file_Close_def split: option.splits)
  then show ?thesis
    by (simp add: Append_None Read_None Close_def)
qed

theorem Close_closed_state_witness:
  "Close example_log = (None, example_log\<lparr>file := None\<rparr>)
   \<and> fst (Append (example_log\<lparr>file := None\<rparr>) [1, 2, 3] Map.empty) = Inl ErrInvalid
   \<and> fst (Read (example_log\<lparr>file := None\<rparr>) 0 Map.empty) = Inl ErrInvalid
   \<and> Close (example_log\<lparr>file := None\<rparr>) = (None, example_log\<lparr>file := None\<rparr>)"
proof -
  have c: "Close example_log = (None, example_log\<lparr>file := None\<rparr>)"
    by (simp add: Close_def example_log_def file_Close_def)
  from Close_closed_state[OF c] show ?thesis using c by simp
qed

text \<open>
  C7. \<^verbatim>\<open>Put\<close> and \<^verbatim>\<open>Delete\<close> change the map only after the append has succeeded: a
  call that returns an error leaves the map as it was, and when the operation was
  encoded the error returned is the one \<^verbatim>\<open>Append\<close> returned; a call that returns nil
  has stored \<open>key \<mapsto> value\<close> (Put) or removed the key (Delete), and the disk is the
  one the append left, with the new record on it, whether or not the key was in the
  map.
\<close>

theorem Put_Delete_write_ahead:
  "(Put enc wal key val d = (Some err, wal', d') \<longrightarrow> data wal' = data wal)
   \<and> (Put enc wal key val d = (None, wal', d') \<longrightarrow> data wal' = (data wal)(key \<mapsto> val))
   \<and> (Delete enc wal key d = (Some err, wal', d') \<longrightarrow> data wal' = data wal)
   \<and> (Delete enc wal key d = (None, wal', d') \<longrightarrow> data wal' = (data wal)(key := None))
   \<and> (enc \<lparr>WriteOperationType = PUT, Key = key, Value = val\<rparr> = Inr buf \<longrightarrow>
        (case Append (log wal) buf d of
           (Inl e, lg, d1) \<Rightarrow> Put enc wal key val d = (Some e, wal\<lparr>log := lg\<rparr>, d1)
         | (Inr off, lg, d1) \<Rightarrow> fst (Put enc wal key val d) = None \<and> snd (snd (Put enc wal key val d)) = d1))
   \<and> (enc \<lparr>WriteOperationType = DELETE, Key = key, Value = []\<rparr> = Inr buf \<longrightarrow>
        (case Append (log wal) buf d of
           (Inl e, lg, d1) \<Rightarrow> Delete enc wal key d = (Some e, wal\<lparr>log := lg\<rparr>, d1)
         | (Inr off, lg, d1) \<Rightarrow> fst (Delete enc wal key d) = None \<and> snd (snd (Delete enc wal key d)) = d1))"
  by (auto simp: Put_cases Delete_cases split: sum.splits prod.splits)

theorem Put_Delete_write_ahead_witness:
  "Put demo_Encode (example_wal\<lparr>log := example_log\<lparr>file := None\<rparr>\<rparr>) [7] [8] example_disk
     = (Some ErrInvalid, example_wal\<lparr>log := example_log\<lparr>file := None\<rparr>\<rparr>, example_disk)
   \<and> Delete demo_Encode example_wal [7] example_disk
     = (None,
        example_wal\<lparr>log := example_log\<lparr>file := Some \<lparr>path = ''wal'', pos = 15\<rparr>\<rparr>,
                    data := (data example_wal)([7] := None)\<rparr>,
        example_disk(''wal'' \<mapsto> frame [1, 1, 7]))"
proof -
  let ?closed = "example_wal\<lparr>log := example_log\<lparr>file := None\<rparr>\<rparr>"
  have a1: "Append (example_log\<lparr>file := None\<rparr>) [0, 1, 7, 8] example_disk
      = (Inl ErrInvalid, example_log\<lparr>file := None\<rparr>, example_disk)"
    by (simp add: Append_None)
  have a2: "Append (log example_wal) [1, 1, 7] example_disk
      = (Inr 0, example_log\<lparr>file := Some \<lparr>path = ''wal'', pos = 15\<rparr>\<rparr>,
         example_disk(''wal'' \<mapsto> frame [1, 1, 7]))"
    by (simp add: example_wal_def Append_open[OF example_log_file] example_disk_contents
        Let_def maxAlloc_def max_file_size_def)
  from Put_Delete_write_ahead[of demo_Encode ?closed "[7]" "[8]" example_disk ErrInvalid ?closed
      example_disk "[0, 1, 7, 8]"]
  have p: "Put demo_Encode ?closed [7] [8] example_disk = (Some ErrInvalid, ?closed, example_disk)"
    by (simp add: demo_Encode_PUT_7 a1)
  from Put_Delete_write_ahead[of demo_Encode example_wal "[7]" "[]" example_disk ErrInvalid
      "fst (snd (Delete demo_Encode example_wal [7] example_disk))"
      "snd (snd (Delete demo_Encode example_wal [7] example_disk))" "[1, 1, 7]"]
  have "fst (Delete demo_Encode example_wal [7] example_disk) = None
      \<and> snd (snd (Delete demo_Encode example_wal [7] example_disk))
          = example_disk(''wal'' \<mapsto> frame [1, 1, 7])"
    by (simp add: demo_Encode_DELETE_7 a2)
  moreover have "log (fst (snd (Delete demo_Encode example_wal [7] example_disk)))
      = example_log\<lparr>file := Some \<lparr>path = ''wal'', pos = 15\<rparr>\<rparr>"
    by (simp add: Delete_cases demo_Encode_DELETE_7 a2)
  moreover have "data (fst (snd (Delete demo_Encode example_wal [7] example_disk)))
      = (data example_wal)([7] := None)"
    by (simp add: Delete_cases demo_Encode_DELETE_7 a2)
  moreover have "more (fst (snd (Delete demo_Encode example_wal [7] example_disk))) = ()"
    by simp
  ultimately have "Delete demo_Encode example_wal [7] example_disk
     = (None,
        example_wal\<lparr>log := example_log\<lparr>file := Some \<lparr>path = ''wal'', pos = 15\<rparr>\<rparr>,
                    data := (data example_wal)([7] := None)\<rparr>,
        example_disk(''wal'' \<mapsto> frame [1, 1, 7]))"
    by (simp add: prod_eq_iff)
  with p show ?thesis by simp
qed

text \<open>
  C8. Where \<^verbatim>\<open>Read\<close> at an offset returns a record, flipping any one bit of any one byte
  of the stored payload or of the four stored checksum bytes makes \<^verbatim>\<open>Read\<close> at that
  offset fail with the corruption error. And a record that \<^verbatim>\<open>Read\<close> returns has the
  CRC-32 that the four bytes after the payload store.
\<close>

theorem bit_flip_detected:
  assumes op: "file fl = Some f"
    and disk: "d (path f) = Some bs"
    and rd: "fst (Read fl off d) = Inr (r, nxt)"
    and lo: "unat off + 8 \<le> i"
    and hi: "i < unat off + 8 + length r + 4"
    and j: "j < 8"
  shows "fst (Read fl off (d(path f \<mapsto> bs[i := bs ! i XOR push_bit j 1]))) = Inl ErrCorruption
    \<and> Uint32 (take 4 (drop (unat off + 8 + length r) bs)) = ChecksumIEEE r"
proof -
  let ?o = "unat off"
  let ?n = "length r"
  let ?L = "PutUint64 (of_nat ?n)"
  let ?C = "PutUint32 (ChecksumIEEE r)"
  let ?rest = "drop (?o + 8 + ?n + 4) bs"
  define x where "x = bs ! i XOR push_bit j 1"
  let ?d' = "d(path f \<mapsto> bs[i := x])"
  have c: "contents d f = bs" using disk by (simp add: contents_def)
  have c': "contents ?d' f = bs[i := x]" by (simp add: contents_def)
  have rd': "Read fl off d = (Inr (r, nxt), snd (Read fl off d))"
    using rd by (simp add: prod_eq_iff)
  from Read_Inr_D[OF op rd']
  have off: "0 \<le> sint off" and le: "?n \<le> maxAlloc"
    and dr: "drop ?o bs = frame r @ ?rest" by (simp_all add: c)
  have dr2: "drop ?o bs = ?L @ r @ ?C @ ?rest"
    using dr by (simp add: frame_def)
  have x: "x \<noteq> bs ! i" unfolding x_def by (rule flip_bit_neq[OF j])
  have oi: "?o \<le> i" using lo by simp
  have nth: "bs ! i = (?L @ r @ ?C @ ?rest) ! (i - ?o)"
  proof -
    have "i < length bs"
    proof (rule ccontr)
      assume "\<not> i < length bs"
      then have "length (drop ?o bs) \<le> i - ?o" by simp
      moreover have "length (drop ?o bs) \<ge> 8 + ?n + 4" by (simp only: dr2) simp
      ultimately show False using hi oi by linarith
    qed
    then have "bs ! i = drop ?o bs ! (i - ?o)" using oi by simp
    then show ?thesis by (simp only: dr2)
  qed
  have upd: "drop ?o (bs[i := x]) = (?L @ r @ ?C @ ?rest)[i - ?o := x]"
    using oi by (simp only: drop_update_swap dr2)
  have part2: "Uint32 (take 4 (drop (?o + 8 + ?n) bs)) = ChecksumIEEE r"
  proof -
    have "drop (?o + 8 + ?n) bs = drop (8 + ?n) (drop ?o bs)" by (simp add: add.commute add.left_commute)
    also have "\<dots> = ?C @ ?rest" by (simp only: dr2) simp
    finally show ?thesis by simp
  qed
  have part1: "fst (Read fl off ?d') = Inl ErrCorruption"
  proof (cases "i - ?o - 8 < ?n")
    case True
    define k where "k = i - ?o - 8"
    define m where "m = i - ?o"
    have kn: "k < ?n" using True by (simp add: k_def)
    have ik: "m = 8 + k" using lo by (simp add: k_def m_def)
    have "(?L @ r @ ?C @ ?rest)[m := x] = ?L @ r[k := x] @ ?C @ ?rest"
      using kn by (simp add: ik list_update_append)
    with upd have fr: "drop ?o (contents ?d' f)
        = PutUint64 (of_nat (length (r[k := x]))) @ r[k := x] @ ?C @ ?rest"
      by (simp add: c' m_def)
    have "(?L @ r @ ?C @ ?rest) ! m = r ! k" using kn by (simp add: ik nth_append)
    with nth have "bs ! i = r ! k" by (simp add: m_def)
    with x have "x \<noteq> r ! k" by simp
    from ChecksumIEEE_update[OF kn this]
    have ne: "ChecksumIEEE (r[k := x]) \<noteq> Uint32 ?C" by simp
    have le': "length (r[k := x]) \<le> maxAlloc" using le by simp
    have l4: "length ?C = 4" by simp
    from Read_framed[OF op off fr le' l4] ne show ?thesis by simp
  next
    case False
    define k where "k = i - ?o - 8 - ?n"
    define m where "m = i - ?o"
    have k4: "k < 4" using hi lo False by (simp add: k_def)
    have ik: "m = 8 + (?n + k)" using lo False by (simp add: k_def m_def)
    have "(?L @ r @ ?C @ ?rest)[m := x] = ?L @ r @ ?C[k := x] @ ?rest"
      using k4 by (simp add: ik list_update_append)
    with upd have fr: "drop ?o (contents ?d' f)
        = PutUint64 (of_nat ?n) @ r @ ?C[k := x] @ ?rest"
      by (simp add: c' m_def)
    have "(?L @ r @ ?C @ ?rest) ! m = ?C ! k" using k4 by (simp add: ik nth_append)
    with nth have "bs ! i = ?C ! k" by (simp add: m_def)
    with x have "?C[k := x] ! k \<noteq> ?C ! k" using k4 by simp
    then have "?C[k := x] \<noteq> ?C" by metis
    then have "Uint32 (?C[k := x]) \<noteq> Uint32 ?C"
      using Uint32_inj[of "?C[k := x]" ?C] by auto
    then have ne: "ChecksumIEEE r \<noteq> Uint32 (?C[k := x])" by simp
    have l4: "length (?C[k := x]) = 4" by simp
    from Read_framed[OF op off fr le l4] ne show ?thesis by simp
  qed
  from part1 part2 show ?thesis unfolding x_def by blast
qed

theorem bit_flip_detected_witness:
  "fst (Read (example_log\<lparr>file := Some \<lparr>path = ''wal'', pos = 14\<rparr>\<rparr>) 0
        (example_disk(''wal'' \<mapsto>
           PutUint64 2 @ [105, 105] @ PutUint32 (ChecksumIEEE [104, 105])))) = Inl ErrCorruption"
proof -
  let ?fl = "example_log\<lparr>file := Some \<lparr>path = ''wal'', pos = 14\<rparr>\<rparr>"
  let ?f = "\<lparr>path = ''wal'', pos = 14\<rparr>"
  let ?bs = "frame [104, 105]"
  let ?d = "example_disk(''wal'' \<mapsto> ?bs)"
  have f: "file ?fl = Some ?f" by simp
  have dk: "?d (path ?f) = Some ?bs" by simp
  have s: "0 \<le> sint (0 :: uint64)" by simp
  have dr: "drop (unat (0 :: uint64)) (contents ?d ?f)
      = PutUint64 (of_nat (length [104, 105 :: byte])) @ [104, 105]
        @ PutUint32 (ChecksumIEEE [104, 105]) @ []"
    by (simp add: frame_def)
  have le: "length [104, 105 :: byte] \<le> maxAlloc" by (simp add: maxAlloc_def)
  have rd: "fst (Read ?fl 0 ?d) = Inr ([104, 105], 14)"
    using Read_framed[OF f s dr le] by simp
  have lo: "unat (0 :: uint64) + 8 \<le> 8" by simp
  have hi: "8 < unat (0 :: uint64) + 8 + length [104, 105 :: byte] + 4" by simp
  have j: "(0 :: nat) < 8" by simp
  have flipped: "?bs[8 := ?bs ! 8 XOR push_bit 0 1]
      = PutUint64 2 @ [105, 105] @ PutUint32 (ChecksumIEEE [104, 105])"
    by (simp add: frame_def list_update_append nth_append)
  from bit_flip_detected[OF f dk rd lo hi j]
  have "fst (Read ?fl 0 (?d(path ?f \<mapsto> ?bs[8 := ?bs ! 8 XOR push_bit 0 1]))) = Inl ErrCorruption"
    by blast
  then show ?thesis by (simp only: flipped) simp
qed

text \<open>
  C9. A \<^verbatim>\<open>Put\<close> or \<^verbatim>\<open>Delete\<close> of one key, successful or not, leaves the entry and the
  \<^verbatim>\<open>Get\<close> result of every key with different bytes unchanged.
\<close>

theorem Put_Delete_frame:
  "k' \<noteq> key \<Longrightarrow>
     data (fst (snd (Put enc wal key val d))) k' = data wal k'
     \<and> Get (fst (snd (Put enc wal key val d))) k' = Get wal k'
     \<and> data (fst (snd (Delete enc wal key d))) k' = data wal k'
     \<and> Get (fst (snd (Delete enc wal key d))) k' = Get wal k'"
  by (auto simp: Put_cases Delete_cases Get_def split: sum.splits prod.splits)

theorem Put_Delete_frame_witness:
  "Get (fst (snd (Put demo_Encode (example_wal\<lparr>data := Map.empty([9] \<mapsto> [5])\<rparr>) [7] [8] example_disk))) [9]
     = ([5], None)
   \<and> Get (fst (snd (Delete demo_Encode (example_wal\<lparr>data := Map.empty([9] \<mapsto> [5])\<rparr>) [7] example_disk))) [9]
     = ([5], None)"
proof -
  have n: "[9] \<noteq> [7::byte]" by simp
  have g: "Get (example_wal\<lparr>data := Map.empty([9] \<mapsto> [5])\<rparr>) [9] = ([5], None)"
    by (simp add: Get_def)
  from Put_Delete_frame[OF n, of demo_Encode "example_wal\<lparr>data := Map.empty([9] \<mapsto> [5])\<rparr>"
      "[8]" example_disk] g
  show ?thesis by simp
qed

text \<open>
  C10. In replay, when \<^verbatim>\<open>Read\<close> returns a record whose payload decodes to an operation
  whose type is neither \<^verbatim>\<open>PUT\<close> nor \<^verbatim>\<open>DELETE\<close>, the loop goes on at the next offset
  with the map unchanged, so this record adds no error and no change; when the payload
  does not decode, the loop returns the decoder's error at once, and construction
  returns that error.
\<close>

theorem replay_skips_other_types:
  assumes rd: "Read lg off d = (Inr (r, nxt), lg')"
  shows "(dec r = Inr op \<and> WriteOperationType op \<noteq> PUT \<and> WriteOperationType op \<noteq> DELETE
            \<longrightarrow> readLoop dec lg d off m = readLoop dec lg' d nxt m)
    \<and> (dec r = Inl err \<longrightarrow> readLoop dec lg d off m = (Inl err, lg'))
    \<and> (dec r = Inl err \<and> off = 0 \<longrightarrow> fst (NewWriteAheadLogWithFileLog dec lg d) = Inl err)"
proof -
  have skip: "readLoop dec lg d off m = readLoop dec lg' d nxt m"
    if "dec r = Inr op" "WriteOperationType op \<noteq> PUT" "WriteOperationType op \<noteq> DELETE"
    using that by (simp add: readLoop_Read_Inr[OF rd] apply_op_def)
  have abort: "readLoop dec lg d off m' = (Inl err, lg')" if "dec r = Inl err" for m'
    using that by (simp add: readLoop_Read_Inr[OF rd])
  have "fst (NewWriteAheadLogWithFileLog dec lg d) = Inl err" if "dec r = Inl err" "off = 0"
    using abort[OF that(1), of Map.empty] that(2)
    by (simp add: NewWriteAheadLogWithFileLog_def readAllLogEntries_def)
  with skip abort show ?thesis by blast
qed

theorem replay_skips_other_types_witness:
  "fst (readLoop demo_Decode example_log (example_disk(''wal'' \<mapsto> frame [5, 1, 7, 9])) 0
        (Map.empty([7] \<mapsto> [1]))) = Inr (Map.empty([7] \<mapsto> [1]))
   \<and> fst (NewWriteAheadLogWithFileLog demo_Decode example_log
        (example_disk(''wal'' \<mapsto> frame [5]))) = Inl (GobError ''decode'')"
proof -
  let ?d = "example_disk(''wal'' \<mapsto> frame [5, 1, 7, 9])"
  let ?lg' = "example_log\<lparr>file := Some \<lparr>path = ''wal'', pos = 16\<rparr>\<rparr>"
  let ?m = "Map.empty([7 :: byte] \<mapsto> [1 :: byte])"
  have rd: "Read example_log 0 ?d = (Inr ([5, 1, 7, 9], 16), ?lg')"
    using example_Read_single[of "[5, 1, 7, 9]"] by (simp add: maxAlloc_def)
  have dc: "demo_Decode [5, 1, 7, 9] = Inr \<lparr>WriteOperationType = 5, Key = [7], Value = [9]\<rparr>"
    by (simp add: demo_Decode_def)
  have f': "file ?lg' = Some \<lparr>path = ''wal'', pos = 16\<rparr>" by simp
  have s: "0 \<le> sint (16 :: uint64)" by simp
  have "length (contents ?d \<lparr>path = ''wal'', pos = 16\<rparr>) \<le> unat (16 :: uint64)" by simp
  from Read_past_end[OF f' s this]
  have "fst (Read ?lg' 16 ?d) = Inl EOF" by simp
  then have fin: "fst (readLoop demo_Decode ?lg' ?d 16 ?m) = Inr ?m"
    by (simp add: readLoop_Read_Inl)
  from replay_skips_other_types[OF rd, of demo_Decode
      "\<lparr>WriteOperationType = 5, Key = [7], Value = [9]\<rparr>" ?m "GobError ''decode''"]
  have "readLoop demo_Decode example_log ?d 0 ?m = readLoop demo_Decode ?lg' ?d 16 ?m"
    by (simp add: dc PUT_def DELETE_def)
  with fin have a: "fst (readLoop demo_Decode example_log ?d 0 ?m) = Inr ?m" by simp
  have rd2: "Read example_log 0 (example_disk(''wal'' \<mapsto> frame [5]))
      = (Inr ([5], 13), example_log\<lparr>file := Some \<lparr>path = ''wal'', pos = 13\<rparr>\<rparr>)"
    using example_Read_single[of "[5]"] by (simp add: maxAlloc_def)
  have dc2: "demo_Decode [5] = Inl (GobError ''decode'')"
    by (simp add: demo_Decode_def)
  from replay_skips_other_types[OF rd2, of demo_Decode
      "\<lparr>WriteOperationType = 5, Key = [7], Value = [9]\<rparr>" Map.empty "GobError ''decode''"]
  have b: "fst (NewWriteAheadLogWithFileLog demo_Decode example_log
        (example_disk(''wal'' \<mapsto> frame [5]))) = Inl (GobError ''decode'')"
    by (simp add: dc2)
  from a b show ?thesis by simp
qed

end
